theory Spec2Isabelle
  imports Main "HOL-Library.Word"
begin

unbundle bit_operations_syntax

section \<open>Machine types\<close>

text \<open>
  \<^verbatim>\<open>uint8_t\<close>, \<^verbatim>\<open>uint16_t\<close> and \<^verbatim>\<open>uint32_t\<close> are words of that width, so
  \<open>+\<close> wraps as the C++ does. \<^verbatim>\<open>size_t\<close> values (buffer sizes, offsets, the
  bytes-per-line setting) are \<open>nat\<close>: every \<^verbatim>\<open>size_t\<close> computation of the converters
  is a minimum, a difference that cannot go below zero, or an offset bounded by the size
  of the buffer, so none of them can wrap.
\<close>

type_synonym u8 = "8 word"
type_synonym u16 = "16 word"
type_synonym u32 = "32 word"

section \<open>BinaryUtils.hpp: bytes as hex text\<close>

text \<open>
  \<^verbatim>\<open>nibble_to_hex\<close> computes \<^verbatim>\<open>'0' + nibble\<close> or \<^verbatim>\<open>'A' + nibble - 10\<close> in \<^verbatim>\<open>int\<close> and
  converts the result to \<^verbatim>\<open>char\<close>; \<open>char_of\<close> keeps the low eight bits.
\<close>

definition nibble_to_hex :: "u8 \<Rightarrow> char" where
  "nibble_to_hex nibble =
     (if nibble < 10 then char_of (of_char CHR ''0'' + uint nibble :: int)
      else char_of (of_char CHR ''A'' + uint nibble - 10 :: int))"

definition byte_to_hex :: "u8 \<Rightarrow> string" where
  "byte_to_hex v = [nibble_to_hex (drop_bit 4 v AND 0x0F), nibble_to_hex (v AND 0x0F)]"

section \<open>HexConverter.cpp: the Intel HEX encoder\<close>

subsection \<open>Records\<close>

definition DATA_RECORD :: u8 where "DATA_RECORD = 0x00"
definition EOF_RECORD :: u8 where "EOF_RECORD = 0x01"
definition EXTENDED_LINEAR_ADDRESS :: u8 where "EXTENDED_LINEAR_ADDRESS = 0x04"

text \<open>
  \<^verbatim>\<open>IntelHexConverter::calculate_checksum\<close>. The sum is a \<^verbatim>\<open>uint32_t\<close>; the loop over
  the payload is a left fold.
\<close>

definition calculate_checksum :: "u8 \<Rightarrow> u16 \<Rightarrow> u8 \<Rightarrow> u8 list \<Rightarrow> u8" where
  "calculate_checksum byte_count address record_type data =
     (let sum0 = (ucast byte_count :: u32);
          sum1 = sum0 + ucast (drop_bit 8 address AND 0xFF);
          sum2 = sum1 + ucast (address AND 0xFF);
          sum3 = sum2 + ucast record_type;
          sum4 = foldl (\<lambda>s byte. s + ucast byte) sum3 data
      in ucast ((256 - (sum4 AND 0xFF)) AND 0xFF))"

text \<open>\<^verbatim>\<open>IntelHexConverter::generate_record\<close>: one line of text, without the newline.\<close>

definition generate_record :: "u8 \<Rightarrow> u16 \<Rightarrow> u8 \<Rightarrow> u8 list \<Rightarrow> string" where
  "generate_record byte_count address record_type data =
     (let record0 = '':'';
          record1 = record0 @ byte_to_hex byte_count;
          record2 = record1 @ byte_to_hex (ucast (drop_bit 8 address));
          record3 = record2 @ byte_to_hex (ucast (address AND 0xFF));
          record4 = record3 @ byte_to_hex record_type;
          record5 = foldl (\<lambda>r byte. r @ byte_to_hex byte) record4 data;
          checksum = calculate_checksum byte_count address record_type data
      in record5 @ byte_to_hex checksum)"

text \<open>
  The arguments of one call of \<^verbatim>\<open>generate_record\<close>. The encoder's loop is modelled as
  emitting these calls in order; the text written to the output file is their rendering
  by \<open>generate_record\<close>, one line per call (\<open>render_intel\<close>). A line determines
  the call that wrote it (\<open>render_intel_inject\<close> below).
\<close>

record intel_record =
  ir_byte_count :: u8
  ir_address :: u16
  ir_type :: u8
  ir_data :: "u8 list"

definition render_intel :: "intel_record \<Rightarrow> string" where
  "render_intel r = generate_record (ir_byte_count r) (ir_address r) (ir_type r) (ir_data r)"

text \<open>
  \<^verbatim>\<open>IntelHexConverter::generate_extended_address_record\<close> calls
  \<^verbatim>\<open>generate_record(2, 0, EXTENDED_LINEAR_ADDRESS, addr_data)\<close>.
\<close>

definition extended_address_record :: "u32 \<Rightarrow> intel_record" where
  "extended_address_record address =
     (let extended_addr = (ucast (drop_bit 16 address) :: u16);
          addr_data = [ucast (drop_bit 8 extended_addr), ucast (extended_addr AND 0xFF)]
      in \<lparr>ir_byte_count = 2, ir_address = 0, ir_type = EXTENDED_LINEAR_ADDRESS,
          ir_data = addr_data\<rparr>)"

definition generate_extended_address_record :: "u32 \<Rightarrow> string" where
  "generate_extended_address_record address = render_intel (extended_address_record address)"

definition eof_record :: intel_record where
  "eof_record = \<lparr>ir_byte_count = 0, ir_address = 0, ir_type = EOF_RECORD, ir_data = []\<rparr>"

subsection \<open>The encoder object and its loop\<close>

record intel_hex_converter =
  hex_bytes_per_line :: nat
  hex_last_error :: string

text \<open>The constructor clamps the line width into \<open>1..255\<close>; the setter stores any value.\<close>

definition IntelHexConverter :: "nat \<Rightarrow> intel_hex_converter" where
  "IntelHexConverter bytes_per_line =
     \<lparr>hex_bytes_per_line = max 1 (min 255 bytes_per_line), hex_last_error = []\<rparr>"

definition hex_set_bytes_per_line :: "nat \<Rightarrow> intel_hex_converter \<Rightarrow> intel_hex_converter" where
  "hex_set_bytes_per_line bytes_per_line self = self\<lparr>hex_bytes_per_line := bytes_per_line\<rparr>"

text \<open>The local variables of \<^verbatim>\<open>convert_to_hex\<close>, and the records written so far.\<close>

record hex_state =
  current_address :: u32
  extended_address :: u32
  data_offset :: nat
  emitted :: "intel_record list"

definition hex_init :: "u32 \<Rightarrow> hex_state" where
  "hex_init start_address =
     \<lparr>current_address = start_address, extended_address = 0xFFFFFFFF, data_offset = 0,
      emitted = []\<rparr>"

text \<open>One iteration of the \<^verbatim>\<open>while\<close> loop of \<^verbatim>\<open>convert_to_hex\<close>.\<close>

definition hex_body :: "nat \<Rightarrow> bool \<Rightarrow> u8 list \<Rightarrow> hex_state \<Rightarrow> hex_state" where
  "hex_body bytes_per_line use_extended_address binary_data st =
     (let st1 =
            (if use_extended_address \<and> drop_bit 16 (current_address st) \<noteq> extended_address st
             then st\<lparr>extended_address := drop_bit 16 (current_address st),
                     emitted := emitted st @ [extended_address_record (current_address st)]\<rparr>
             else st);
          bytes_remaining = length binary_data - data_offset st;
          bytes_this_line = min bytes_per_line bytes_remaining;
          max_bytes_to_boundary = unat (0x10000 - (current_address st AND 0xFFFF));
          bytes_this_line = min bytes_this_line max_bytes_to_boundary;
          line_data = take bytes_this_line (drop (data_offset st) binary_data);
          record = \<lparr>ir_byte_count = of_nat bytes_this_line,
                    ir_address = ucast (current_address st AND 0xFFFF),
                    ir_type = DATA_RECORD, ir_data = line_data\<rparr>
      in st1\<lparr>emitted := emitted st1 @ [record],
             data_offset := data_offset st + bytes_this_line,
             current_address := current_address st + of_nat bytes_this_line\<rparr>)"

text \<open>
  The loop itself. With a line width of 0 (which only the setter can store) and a
  non-empty buffer the C++ loop never advances; the model then has no value.
\<close>

partial_function (option) hex_loop :: "nat \<Rightarrow> bool \<Rightarrow> u8 list \<Rightarrow> hex_state \<Rightarrow> hex_state option"
where
  "hex_loop bytes_per_line use_extended_address binary_data st =
     (if data_offset st < length binary_data
      then hex_loop bytes_per_line use_extended_address binary_data
             (hex_body bytes_per_line use_extended_address binary_data st)
      else Some st)"

text \<open>
  The calls of \<^verbatim>\<open>generate_record\<close> made by one run, in order: those of the loop, then
  the end-of-file record.
\<close>

definition hex_records :: "nat \<Rightarrow> u8 list \<Rightarrow> u32 \<Rightarrow> bool \<Rightarrow> intel_record list option" where
  "hex_records bytes_per_line binary_data start_address use_extended_address =
     map_option (\<lambda>st. emitted st @ [eof_record])
       (hex_loop bytes_per_line use_extended_address binary_data (hex_init start_address))"

text \<open>
  \<^verbatim>\<open>IntelHexConverter::convert_to_hex\<close>. The file system is outside the program:
  \<open>is_open\<close> says whether \<^verbatim>\<open>std::ofstream out(output_file)\<close> opened the file. The result
  holds the returned flag, the object after the call and the lines written. The
  \<^verbatim>\<open>catch\<close> branch is not modelled: nothing in the \<^verbatim>\<open>try\<close> block throws except on
  memory exhaustion.
\<close>

record hex_result =
  hex_ok :: bool
  hex_self :: intel_hex_converter
  hex_written :: "string list"

definition convert_to_hex ::
  "intel_hex_converter \<Rightarrow> u8 list \<Rightarrow> u32 \<Rightarrow> string \<Rightarrow> bool \<Rightarrow> bool \<Rightarrow> hex_result option" where
  "convert_to_hex self binary_data start_address output_file is_open use_extended_address =
     (if \<not> is_open
      then Some \<lparr>hex_ok = False,
                 hex_self = self\<lparr>hex_last_error := ''Failed to open output file: '' @ output_file\<rparr>,
                 hex_written = []\<rparr>
      else map_option
             (\<lambda>records. \<lparr>hex_ok = True, hex_self = self, hex_written = map render_intel records\<rparr>)
             (hex_records (hex_bytes_per_line self) binary_data start_address
                use_extended_address))"

section \<open>SRecordConverter.cpp: the Motorola S-Record encoder\<close>

subsection \<open>Records\<close>

datatype srec_type =
  S0_HEADER | S1_DATA_16 | S2_DATA_24 | S3_DATA_32 | S4_RESERVED
  | S5_COUNT_16 | S6_COUNT_24 | S7_END_32 | S8_END_24 | S9_END_16

text \<open>
  \<^verbatim>\<open>std::to_string(static_cast<int>(type))\<close>: the enumerators are declared with the
  values 0 to 9, so the result is one decimal digit.
\<close>

fun type_to_string :: "srec_type \<Rightarrow> string" where
  "type_to_string S0_HEADER = ''0''"
| "type_to_string S1_DATA_16 = ''1''"
| "type_to_string S2_DATA_24 = ''2''"
| "type_to_string S3_DATA_32 = ''3''"
| "type_to_string S4_RESERVED = ''4''"
| "type_to_string S5_COUNT_16 = ''5''"
| "type_to_string S6_COUNT_24 = ''6''"
| "type_to_string S7_END_32 = ''7''"
| "type_to_string S8_END_24 = ''8''"
| "type_to_string S9_END_16 = ''9''"

fun get_address_bytes :: "srec_type \<Rightarrow> nat" where
  "get_address_bytes S0_HEADER = 2"
| "get_address_bytes S1_DATA_16 = 2"
| "get_address_bytes S5_COUNT_16 = 2"
| "get_address_bytes S9_END_16 = 2"
| "get_address_bytes S2_DATA_24 = 3"
| "get_address_bytes S6_COUNT_24 = 3"
| "get_address_bytes S8_END_24 = 3"
| "get_address_bytes S3_DATA_32 = 4"
| "get_address_bytes S7_END_32 = 4"
| "get_address_bytes S4_RESERVED = 2"

definition get_data_record_type :: "int \<Rightarrow> srec_type" where
  "get_data_record_type address_size =
     (if address_size = 16 then S1_DATA_16
      else if address_size = 24 then S2_DATA_24
      else if address_size = 32 then S3_DATA_32
      else S3_DATA_32)"

definition get_end_record_type :: "int \<Rightarrow> srec_type" where
  "get_end_record_type address_size =
     (if address_size = 16 then S9_END_16
      else if address_size = 24 then S8_END_24
      else if address_size = 32 then S7_END_32
      else S7_END_32)"

text \<open>\<^verbatim>\<open>SRecordConverter::calculate_checksum\<close>.\<close>

definition srec_calculate_checksum :: "u8 \<Rightarrow> u32 \<Rightarrow> nat \<Rightarrow> u8 list \<Rightarrow> u8" where
  "srec_calculate_checksum byte_count address address_bytes data =
     (let sum0 = (ucast byte_count :: u32);
          sum1 = (if address_bytes \<ge> 2
                  then sum0 + (drop_bit 8 address AND 0xFF) + (address AND 0xFF) else sum0);
          sum2 = (if address_bytes \<ge> 3 then sum1 + (drop_bit 16 address AND 0xFF) else sum1);
          sum3 = (if address_bytes \<ge> 4 then sum2 + (drop_bit 24 address AND 0xFF) else sum2);
          sum4 = foldl (\<lambda>s byte. s + ucast byte) sum3 data
      in ucast (NOT sum4 AND 0xFF))"

text \<open>
  \<^verbatim>\<open>SRecordConverter::generate_record\<close>. The byte count is
  \<^verbatim>\<open>static_cast<uint8_t>(addr_bytes + data.size() + 1)\<close>: the cast keeps the low eight
  bits. The address bytes are appended in the order of the three \<^verbatim>\<open>if\<close> statements.
\<close>

definition srec_byte_count :: "srec_type \<Rightarrow> u8 list \<Rightarrow> u8" where
  "srec_byte_count type data = of_nat (get_address_bytes type + length data + 1)"

definition srec_address_field :: "srec_type \<Rightarrow> u32 \<Rightarrow> string" where
  "srec_address_field type address =
     (let addr_bytes = get_address_bytes type;
          a2 = (if addr_bytes \<ge> 2
                then byte_to_hex (ucast (drop_bit 8 address)) @ byte_to_hex (ucast (address AND 0xFF))
                else []);
          a3 = (if addr_bytes \<ge> 3 then a2 @ byte_to_hex (ucast (drop_bit 16 address)) else a2);
          a4 = (if addr_bytes \<ge> 4 then a3 @ byte_to_hex (ucast (drop_bit 24 address)) else a3)
      in a4)"

definition srec_generate_record :: "srec_type \<Rightarrow> u32 \<Rightarrow> u8 list \<Rightarrow> string" where
  "srec_generate_record type address data =
     (let record0 = ''S'';
          record1 = record0 @ type_to_string type;
          addr_bytes = get_address_bytes type;
          byte_count = srec_byte_count type data;
          record2 = record1 @ byte_to_hex byte_count;
          record3 = record2 @ srec_address_field type address;
          record4 = foldl (\<lambda>r byte. r @ byte_to_hex byte) record3 data;
          checksum = srec_calculate_checksum byte_count address addr_bytes data
      in record4 @ byte_to_hex checksum)"

text \<open>The arguments of one call of \<^verbatim>\<open>generate_record\<close>, and its rendering.\<close>

record srec_record =
  sr_type :: srec_type
  sr_address :: u32
  sr_data :: "u8 list"

definition render_srec :: "srec_record \<Rightarrow> string" where
  "render_srec r = srec_generate_record (sr_type r) (sr_address r) (sr_data r)"

subsection \<open>The encoder object and its loop\<close>

record srecord_converter =
  srec_bytes_per_line :: nat
  srec_last_error :: string

definition SRecordConverter :: "nat \<Rightarrow> srecord_converter" where
  "SRecordConverter bytes_per_line =
     \<lparr>srec_bytes_per_line = max 1 (min 252 bytes_per_line), srec_last_error = []\<rparr>"

definition srec_set_bytes_per_line :: "nat \<Rightarrow> srecord_converter \<Rightarrow> srecord_converter" where
  "srec_set_bytes_per_line bytes_per_line self = self\<lparr>srec_bytes_per_line := bytes_per_line\<rparr>"

record srec_state =
  s_current_address :: u32
  s_data_offset :: nat
  s_record_count :: u32
  s_emitted :: "srec_record list"

definition srec_init :: "u32 \<Rightarrow> srec_record list \<Rightarrow> srec_state" where
  "srec_init start_address written =
     \<lparr>s_current_address = start_address, s_data_offset = 0, s_record_count = 0,
      s_emitted = written\<rparr>"

text \<open>One iteration of the \<^verbatim>\<open>while\<close> loop of \<^verbatim>\<open>convert_to_srec\<close>.\<close>

definition srec_body :: "nat \<Rightarrow> srec_type \<Rightarrow> u8 list \<Rightarrow> srec_state \<Rightarrow> srec_state" where
  "srec_body bytes_per_line data_type binary_data st =
     (let bytes_remaining = length binary_data - s_data_offset st;
          bytes_this_line = min bytes_per_line bytes_remaining;
          addr_bytes = get_address_bytes data_type;
          max_data_bytes = 255 - addr_bytes - 1;
          bytes_this_line = min bytes_this_line max_data_bytes;
          line_data = take bytes_this_line (drop (s_data_offset st) binary_data);
          record = \<lparr>sr_type = data_type, sr_address = s_current_address st, sr_data = line_data\<rparr>
      in st\<lparr>s_emitted := s_emitted st @ [record],
            s_data_offset := s_data_offset st + bytes_this_line,
            s_current_address := s_current_address st + of_nat bytes_this_line,
            s_record_count := s_record_count st + 1\<rparr>)"

partial_function (option) srec_loop ::
  "nat \<Rightarrow> srec_type \<Rightarrow> u8 list \<Rightarrow> srec_state \<Rightarrow> srec_state option"
where
  "srec_loop bytes_per_line data_type binary_data st =
     (if s_data_offset st < length binary_data
      then srec_loop bytes_per_line data_type binary_data
             (srec_body bytes_per_line data_type binary_data st)
      else Some st)"

definition header_record :: "string \<Rightarrow> srec_record" where
  "header_record header =
     \<lparr>sr_type = S0_HEADER, sr_address = 0, sr_data = map of_char header\<rparr>"

definition count_record :: "u32 \<Rightarrow> srec_record" where
  "count_record record_count =
     \<lparr>sr_type = S5_COUNT_16, sr_address = record_count,
      sr_data = [ucast (drop_bit 8 record_count), ucast (record_count AND 0xFF)]\<rparr>"

definition end_record :: "srec_type \<Rightarrow> u32 \<Rightarrow> srec_record" where
  "end_record end_type start_address =
     \<lparr>sr_type = end_type, sr_address = start_address, sr_data = []\<rparr>"

text \<open>
  The calls of \<^verbatim>\<open>generate_record\<close> made by one run with a valid address size, in
  order: header, data records, record count, end record.
\<close>

definition srec_records ::
  "nat \<Rightarrow> u8 list \<Rightarrow> u32 \<Rightarrow> int \<Rightarrow> string \<Rightarrow> srec_record list option" where
  "srec_records bytes_per_line binary_data start_address address_size header =
     (let written = (if header \<noteq> [] then [header_record header] else []);
          data_type = get_data_record_type address_size;
          end_type = get_end_record_type address_size
      in map_option
           (\<lambda>st. s_emitted st
                  @ (if s_record_count st \<le> 0xFFFF then [count_record (s_record_count st)]
                     else [])
                  @ [end_record end_type start_address])
           (srec_loop bytes_per_line data_type binary_data (srec_init start_address written)))"

text \<open>
  \<^verbatim>\<open>SRecordConverter::convert_to_srec\<close>. As for the Intel encoder, \<open>is_open\<close> says
  whether the output file opened. The file is opened before the address size is checked.
\<close>

record srec_result =
  srec_ok :: bool
  srec_self :: srecord_converter
  srec_written :: "string list"

definition convert_to_srec ::
  "srecord_converter \<Rightarrow> u8 list \<Rightarrow> u32 \<Rightarrow> string \<Rightarrow> bool \<Rightarrow> int \<Rightarrow> string
     \<Rightarrow> srec_result option" where
  "convert_to_srec self binary_data start_address output_file is_open address_size header =
     (if \<not> is_open
      then Some \<lparr>srec_ok = False,
                 srec_self =
                   self\<lparr>srec_last_error := ''Failed to open output file: '' @ output_file\<rparr>,
                 srec_written = []\<rparr>
      else if address_size \<noteq> 16 \<and> address_size \<noteq> 24 \<and> address_size \<noteq> 32
      then Some \<lparr>srec_ok = False,
                 srec_self =
                   self\<lparr>srec_last_error := ''Invalid address size. Must be 16, 24, or 32 bits.''\<rparr>,
                 srec_written = []\<rparr>
      else map_option
             (\<lambda>records. \<lparr>srec_ok = True, srec_self = self,
                          srec_written = map render_srec records\<rparr>)
             (srec_records (srec_bytes_per_line self) binary_data start_address address_size
                header))"

section \<open>Definitions used by the proofs\<close>

text \<open>
  The payload length \<^verbatim>\<open>bytes_this_line\<close> that one iteration of the Intel loop computes
  in the state \<open>st\<close>, and the data record it writes.
\<close>

definition hex_chunk :: "nat \<Rightarrow> u8 list \<Rightarrow> hex_state \<Rightarrow> nat" where
  "hex_chunk bpl data st =
     min (min bpl (length data - data_offset st)) (65536 - unat (current_address st) mod 65536)"

definition hex_data_record :: "nat \<Rightarrow> u8 list \<Rightarrow> hex_state \<Rightarrow> intel_record" where
  "hex_data_record bpl data st =
     \<lparr>ir_byte_count = of_nat (hex_chunk bpl data st),
      ir_address = ucast (current_address st AND 0xFFFF),
      ir_type = DATA_RECORD,
      ir_data = take (hex_chunk bpl data st) (drop (data_offset st) data)\<rparr>"

text \<open>The bounds of a data record: line width and 64 KiB page.\<close>

definition data_record_ok :: "nat \<Rightarrow> intel_record \<Rightarrow> bool" where
  "data_record_ok bpl r \<longleftrightarrow>
     length (ir_data r) \<le> bpl \<and> unat (ir_address r) + length (ir_data r) \<le> 0x10000"

text \<open>
  The loop invariant of a run without extended addressing: the cursor is
  \<open>start + data_offset\<close>, the payloads written so far are the bytes before the offset,
  and every record is a data record at the low 16 bits of the address it was written at.
\<close>

definition plain_inv :: "u32 \<Rightarrow> u8 list \<Rightarrow> hex_state \<Rightarrow> bool" where
  "plain_inv start data st \<longleftrightarrow>
     data_offset st \<le> length data \<and>
     current_address st = start + of_nat (data_offset st) \<and>
     concat (map ir_data (emitted st)) = take (data_offset st) data \<and>
     (\<forall>i<length (emitted st).
        ir_type (emitted st ! i) = DATA_RECORD \<and>
        unat (ir_address (emitted st ! i))
          = (unat start + length (concat (map ir_data (take i (emitted st))))) mod 65536)"

text \<open>
  The address bytes that \<^verbatim>\<open>SRecordConverter::generate_record\<close> appends for a record
  type, in the order it appends them.
\<close>

definition srec_address_bytes :: "srec_type \<Rightarrow> u32 \<Rightarrow> u8 list" where
  "srec_address_bytes type address =
     (if get_address_bytes type \<ge> 2
      then [ucast (drop_bit 8 address), ucast (address AND 0xFF)] else [])
     @ (if get_address_bytes type \<ge> 3 then [ucast (drop_bit 16 address)] else [])
     @ (if get_address_bytes type \<ge> 4 then [ucast (drop_bit 24 address)] else [])"

text \<open>
  The payload length that one iteration of the S-Record loop computes in the state
  \<open>st\<close>, and the data record it writes.
\<close>

definition srec_chunk :: "nat \<Rightarrow> srec_type \<Rightarrow> u8 list \<Rightarrow> srec_state \<Rightarrow> nat" where
  "srec_chunk bpl data_type data st =
     min (min bpl (length data - s_data_offset st)) (255 - get_address_bytes data_type - 1)"

definition srec_data_record :: "nat \<Rightarrow> srec_type \<Rightarrow> u8 list \<Rightarrow> srec_state \<Rightarrow> srec_record" where
  "srec_data_record bpl data_type data st =
     \<lparr>sr_type = data_type, sr_address = s_current_address st,
      sr_data = take (srec_chunk bpl data_type data st) (drop (s_data_offset st) data)\<rparr>"

text \<open>
  Following the spec's words ("address big-endian", most significant address byte first):
  the address as \<open>n\<close> bytes of hex text, byte \<open>n - 1\<close> first and byte 0 last.
\<close>

fun address_big_endian :: "nat \<Rightarrow> u32 \<Rightarrow> string" where
  "address_big_endian 0 address = []"
| "address_big_endian (Suc n) address =
     byte_to_hex (ucast (drop_bit (8 * n) address)) @ address_big_endian n address"

text \<open>
  For the runs with extended addressing: the number of bytes from an address to the end
  of its 64 KiB page, the first address of the next page, and the record kinds.
\<close>

definition to_boundary :: "u32 \<Rightarrow> nat" where
  "to_boundary a = 65536 - unat a mod 65536"

definition next_page :: "u32 \<Rightarrow> u32" where
  "next_page start = start + of_nat (to_boundary start)"

definition all_data :: "intel_record list \<Rightarrow> bool" where
  "all_data ds \<longleftrightarrow> (\<forall>r\<in>set ds. ir_type r = DATA_RECORD)"

definition is_extended_address :: "intel_record \<Rightarrow> bool" where
  "is_extended_address r \<longleftrightarrow> ir_type r = EXTENDED_LINEAR_ADDRESS"

text \<open>
  The loop invariant of a run with extended addressing over a buffer that reaches into
  the next page and no further. Before the first iteration nothing is written; up to the
  page boundary the output is the extended address record of the start address and data
  records; beyond it, the extended address record of the next page and more data records
  follow, the first of them at address 0.
\<close>

definition ext_inv :: "u32 \<Rightarrow> u8 list \<Rightarrow> hex_state \<Rightarrow> bool" where
  "ext_inv start data st \<longleftrightarrow>
     current_address st = start + of_nat (data_offset st) \<and>
     data_offset st \<le> length data \<and>
     ((data_offset st = 0 \<and> emitted st = [] \<and> extended_address st = 0xFFFFFFFF) \<or>
      (0 < data_offset st \<and> data_offset st \<le> to_boundary start \<and>
       extended_address st = drop_bit 16 start \<and>
       (\<exists>ds1. ds1 \<noteq> [] \<and> all_data ds1 \<and>
              emitted st = extended_address_record start # ds1)) \<or>
      (to_boundary start < data_offset st \<and>
       extended_address st = drop_bit 16 (next_page start) \<and>
       (\<exists>ds1 ds2. ds1 \<noteq> [] \<and> ds2 \<noteq> [] \<and> all_data ds1 \<and> all_data ds2 \<and>
              ir_address (hd ds2) = 0 \<and>
              emitted st = extended_address_record start # ds1
                             @ extended_address_record (next_page start) # ds2)))"

text \<open>The value of a hex digit as \<^verbatim>\<open>nibble_to_hex\<close> writes it, to read a line back.\<close>

definition hex_digit_value :: "char \<Rightarrow> int" where
  "hex_digit_value c = (if of_char c < (65 :: int) then of_char c - 48 else of_char c - 55)"

section \<open>Evaluation\<close>

text \<open>The definitions a concrete run unfolds.\<close>

lemmas intel_type_defs = DATA_RECORD_def EOF_RECORD_def EXTENDED_LINEAR_ADDRESS_def

lemmas hex_format_defs = byte_to_hex_def nibble_to_hex_def char_of_def

lemmas intel_run_defs =
  convert_to_hex_def IntelHexConverter_def hex_records_def hex_loop.simps hex_init_def
  hex_body_def extended_address_record_def eof_record_def intel_type_defs

lemmas intel_render_defs =
  render_intel_def generate_record_def calculate_checksum_def

lemmas srec_run_defs =
  convert_to_srec_def SRecordConverter_def srec_records_def srec_loop.simps srec_init_def
  srec_body_def header_record_def count_record_def end_record_def
  get_data_record_type_def get_end_record_type_def

lemmas srec_render_defs =
  render_srec_def srec_generate_record_def srec_calculate_checksum_def srec_byte_count_def
  srec_address_field_def

section \<open>Words as numbers\<close>

lemma and_15_take_bit: "(x :: 'a::len word) AND 0x0F = take_bit 4 x"
proof -
  have "(0x0F :: 'a word) = mask 4" by (simp add: mask_eq_exp_minus_1)
  then show ?thesis by (simp add: take_bit_eq_mask)
qed

lemma and_255_take_bit: "(x :: 'a::len word) AND 0xFF = take_bit 8 x"
proof -
  have "(0xFF :: 'a word) = mask 8" by (simp add: mask_eq_exp_minus_1)
  then show ?thesis by (simp add: take_bit_eq_mask)
qed

lemma and_65535_take_bit: "(x :: 'a::len word) AND 0xFFFF = take_bit 16 x"
proof -
  have "(0xFFFF :: 'a word) = mask 16" by (simp add: mask_eq_exp_minus_1)
  then show ?thesis by (simp add: take_bit_eq_mask)
qed

lemma unat_and_255: "unat ((x :: 'a::len word) AND 0xFF) = unat x mod 256"
  by (simp add: and_255_take_bit unsigned_take_bit_eq take_bit_nat_def)

lemma unat_and_65535: "unat ((x :: 'a::len word) AND 0xFFFF) = unat x mod 65536"
  by (simp add: and_65535_take_bit unsigned_take_bit_eq take_bit_nat_def)

lemma unat_u8_less: "unat (b :: u8) < 256"
  using unsigned_less [of b, where 'a = nat] by simp

lemma unat_u16_less: "unat (b :: u16) < 65536"
  using unsigned_less [of b, where 'a = nat] by simp

lemma unat_u32_less: "unat (b :: u32) < 4294967296"
  using unsigned_less [of b, where 'a = nat] by simp

lemma unat_ucast_u8_u32: "unat (ucast (b :: u8) :: u32) = unat b"
  using unat_u8_less [of b] by (simp add: unsigned_ucast_eq take_bit_nat_def)

lemma unat_ucast_u16_u32: "unat (ucast (b :: u16) :: u32) = unat b"
  using unat_u16_less [of b] by (simp add: unsigned_ucast_eq take_bit_nat_def)

lemma unat_ucast_to_u8: "unat (ucast (w :: 'a::len word) :: u8) = unat w mod 256"
  by (simp add: unsigned_ucast_eq take_bit_nat_def)

lemma unat_low16: "unat (ucast ((c :: u32) AND 0xFFFF) :: u16) = unat c mod 65536"
  by (simp add: unsigned_ucast_eq take_bit_nat_def unat_and_65535)

lemma unat_bytes_to_boundary:
  "unat (0x10000 - ((c :: u32) AND 0xFFFF)) = 65536 - unat c mod 65536"
proof -
  have le: "c AND 0xFFFF \<le> 0x10000"
    by (simp add: word_le_nat_alt unat_and_65535 less_imp_le)
  show ?thesis using unat_sub [OF le] by (simp add: unat_and_65535)
qed

lemma unat_add_of_nat_low16:
  "unat ((start :: u32) + of_nat n) mod 65536 = (unat start + n) mod 65536"
proof -
  have "unat (start + of_nat n) mod 65536 = (unat start + n mod 4294967296) mod 65536"
    by (simp add: unat_word_ariths unat_of_nat mod_mod_cancel)
  also have "\<dots> = (unat start + n mod 4294967296 mod 65536) mod 65536"
    by (simp add: mod_add_right_eq)
  also have "\<dots> = (unat start + n) mod 65536"
    by (simp add: mod_mod_cancel mod_add_right_eq)
  finally show ?thesis .
qed

lemma unat_foldl_add:
  "unat (foldl (\<lambda>s byte. s + ucast byte) (s0 :: u32) (data :: u8 list))
     = (unat s0 + sum_list (map unat data)) mod 2 ^ 32"
proof (induction data arbitrary: s0)
  case Nil
  show ?case using unat_u32_less [of s0] by simp
next
  case (Cons b bs)
  show ?case
    by (simp add: Cons.IH unat_word_ariths unat_ucast_u8_u32 mod_add_left_eq add.assoc)
qed

lemma unat_twos_complement_byte:
  fixes s :: u32
  shows "unat (ucast ((256 - (s AND 0xFF)) AND 0xFF) :: u8) = (256 - unat s mod 256) mod 256"
proof -
  have le: "s AND 0xFF \<le> 256"
    by (simp add: word_le_nat_alt unat_and_255 less_imp_le)
  have "unat (256 - (s AND 0xFF)) = 256 - unat s mod 256"
    using unat_sub [OF le] by (simp add: unat_and_255)
  then show ?thesis
    by (simp add: unat_ucast_to_u8 unat_and_255)
qed

section \<open>The Intel HEX encoder: records and checksum\<close>

lemma foldl_append_hex:
  "foldl (\<lambda>r byte. r @ byte_to_hex byte) acc data = acc @ concat (map byte_to_hex data)"
  by (induction data arbitrary: acc) simp_all

lemma generate_record_layout:
  "generate_record bc a ty data =
     '':'' @ byte_to_hex bc @ byte_to_hex (ucast (drop_bit 8 a)) @ byte_to_hex (ucast (a AND 0xFF))
       @ byte_to_hex ty @ concat (map byte_to_hex data)
       @ byte_to_hex (calculate_checksum bc a ty data)"
  by (simp add: generate_record_def Let_def foldl_append_hex)

lemma calculate_checksum_unat:
  "unat (calculate_checksum bc a ty data)
     = (256 - (unat bc + unat (ucast (drop_bit 8 a) :: u8) + unat (ucast (a AND 0xFF) :: u8)
               + unat ty + sum_list (map unat data)) mod 256) mod 256"
proof -
  let ?s3 = "(ucast bc :: u32) + ucast (drop_bit 8 a AND 0xFF) + ucast (a AND 0xFF) + ucast ty"
  let ?n3 = "unat bc + unat (ucast (drop_bit 8 a) :: u8) + unat (ucast (a AND 0xFF) :: u8) + unat ty"
  have s3: "unat ?s3 mod 256 = ?n3 mod 256"
    by (simp add: unat_word_ariths unat_ucast_u8_u32 unat_ucast_u16_u32 mod_mod_cancel
        mod_add_left_eq unat_and_255 unat_ucast_to_u8)
  have "unat (foldl (\<lambda>s byte. s + ucast byte) ?s3 data) mod 256
          = (unat ?s3 + sum_list (map unat data)) mod 256"
    by (simp add: unat_foldl_add mod_mod_cancel)
  also have "\<dots> = (unat ?s3 mod 256 + sum_list (map unat data)) mod 256"
    by (simp add: mod_add_left_eq)
  also have "\<dots> = (?n3 mod 256 + sum_list (map unat data)) mod 256"
    by (simp only: s3)
  also have "\<dots> = (?n3 + sum_list (map unat data)) mod 256"
    by (simp add: mod_add_left_eq)
  finally show ?thesis
    by (simp add: calculate_checksum_def Let_def unat_twos_complement_byte)
qed

section \<open>The Intel HEX encoder: the loop\<close>

lemma hex_body_offset:
  "data_offset (hex_body bpl ext data st) = data_offset st + hex_chunk bpl data st"
  by (simp add: hex_body_def Let_def hex_chunk_def unat_bytes_to_boundary)

lemma hex_body_address:
  "current_address (hex_body bpl ext data st) = current_address st + of_nat (hex_chunk bpl data st)"
  by (simp add: hex_body_def Let_def hex_chunk_def unat_bytes_to_boundary)

lemma hex_body_emitted:
  "emitted (hex_body bpl ext data st) =
     emitted st
     @ (if ext \<and> drop_bit 16 (current_address st) \<noteq> extended_address st
        then [extended_address_record (current_address st)] else [])
     @ [hex_data_record bpl data st]"
  by (simp add: hex_body_def Let_def hex_chunk_def hex_data_record_def unat_bytes_to_boundary)

lemma hex_body_extended:
  "extended_address (hex_body bpl ext data st) =
     (if ext \<and> drop_bit 16 (current_address st) \<noteq> extended_address st
      then drop_bit 16 (current_address st) else extended_address st)"
  by (simp add: hex_body_def Let_def)

lemma hex_chunk_pos:
  "0 < bpl \<Longrightarrow> data_offset st < length data \<Longrightarrow> 0 < hex_chunk bpl data st"
  by (simp add: hex_chunk_def)

lemma hex_chunk_le:
  "hex_chunk bpl data st \<le> bpl"
  "hex_chunk bpl data st \<le> length data - data_offset st"
  "hex_chunk bpl data st \<le> 65536 - unat (current_address st) mod 65536"
  by (simp_all add: hex_chunk_def)

text \<open>The invariant rule of the loop: what holds before and is kept by the body holds after.\<close>

lemma hex_loop_rule:
  assumes run: "hex_loop bpl ext data st = Some st'"
    and init: "I st"
    and step: "\<And>s. I s \<Longrightarrow> data_offset s < length data \<Longrightarrow> I (hex_body bpl ext data s)"
  shows "I st' \<and> \<not> data_offset st' < length data"
proof -
  define P where "P = (\<lambda>(b::nat) (e::bool) (d::u8 list) s s'.
    b = bpl \<longrightarrow> e = ext \<longrightarrow> d = data \<longrightarrow> I s \<longrightarrow> I s' \<and> \<not> data_offset s' < length data)"
  have "P bpl ext data st st'"
  proof (rule hex_loop.raw_induct [where P = P, OF _ run])
    fix loop b e d s y
    assume IH: "\<And>b e d s y. loop b e d s = Some y \<Longrightarrow> P b e d s y"
      and eq: "(if data_offset s < length d then loop b e d (hex_body b e d s) else Some s) = Some y"
    show "P b e d s y"
    proof (cases "data_offset s < length d")
      case True
      with eq have "P b e d (hex_body b e d s) y" by (simp add: IH)
      with True show ?thesis by (auto simp: P_def intro: step)
    next
      case False
      with eq show ?thesis by (auto simp: P_def)
    qed
  qed
  with init show ?thesis by (simp add: P_def)
qed

text \<open>With a positive line width every iteration advances, so the loop returns.\<close>

lemma hex_loop_returns:
  assumes "0 < bpl"
  shows "\<exists>st'. hex_loop bpl ext data st = Some st'"
proof (induction "length data - data_offset st" arbitrary: st rule: less_induct)
  case less
  show ?case
  proof (cases "data_offset st < length data")
    case True
    let ?st1 = "hex_body bpl ext data st"
    have "length data - data_offset ?st1 < length data - data_offset st"
      using True hex_chunk_pos [OF assms True] hex_chunk_le(2) [of bpl data st]
      by (simp add: hex_body_offset)
    from less [OF this] obtain st' where "hex_loop bpl ext data ?st1 = Some st'" by blast
    with True show ?thesis by (subst hex_loop.simps) simp
  next
    case False
    then show ?thesis by (subst hex_loop.simps) simp
  qed
qed

text \<open>With a line width of 0 and bytes left to write, it does not.\<close>

lemma hex_loop_diverges:
  assumes "data_offset st < length data"
  shows "hex_loop 0 ext data st = None"
proof (rule ccontr)
  assume "hex_loop 0 ext data st \<noteq> None"
  then obtain st' where run: "hex_loop 0 ext data st = Some st'" by blast
  have "data_offset st' < length data \<and> \<not> data_offset st' < length data"
    using assms
    by (intro hex_loop_rule [OF run, where I = "\<lambda>s. data_offset s < length data"])
       (simp_all add: hex_body_offset hex_chunk_def)
  then show False by simp
qed

lemma hex_records_returns:
  "0 < bpl \<Longrightarrow> \<exists>recs. hex_records bpl data start ext = Some recs"
  using hex_loop_returns [of bpl ext data "hex_init start"]
  by (auto simp: hex_records_def)

lemma hex_records_invariant:
  assumes run: "hex_records bpl data start ext = Some recs"
    and init: "I (hex_init start)"
    and step: "\<And>s. I s \<Longrightarrow> data_offset s < length data \<Longrightarrow> I (hex_body bpl ext data s)"
  shows "\<exists>st. recs = emitted st @ [eof_record] \<and> I st \<and> \<not> data_offset st < length data"
proof -
  from run obtain st where loop: "hex_loop bpl ext data (hex_init start) = Some st"
    and recs: "recs = emitted st @ [eof_record]"
    by (auto simp: hex_records_def)
  from hex_loop_rule [OF loop, of I, OF init step] recs show ?thesis by blast
qed

lemma hex_data_record_ok: "data_record_ok bpl (hex_data_record bpl data st)"
  using hex_chunk_le [of bpl data st]
  by (simp add: data_record_ok_def hex_data_record_def unat_low16)

lemma hex_body_data_ok:
  assumes "\<forall>r\<in>set (emitted s). ir_type r = DATA_RECORD \<longrightarrow> data_record_ok bpl r"
  shows "\<forall>r\<in>set (emitted (hex_body bpl ext data s)).
           ir_type r = DATA_RECORD \<longrightarrow> data_record_ok bpl r"
  using assms hex_data_record_ok [of bpl data s]
  by (auto simp: hex_body_emitted extended_address_record_def intel_type_defs Let_def)

lemma plain_inv_init: "plain_inv start data (hex_init start)"
  by (simp add: plain_inv_def hex_init_def)

lemma plain_inv_step:
  assumes inv: "plain_inv start data s"
  shows "plain_inv start data (hex_body bpl False data s)"
proof -
  let ?n = "hex_chunk bpl data s"
  let ?ds = "emitted s"
  let ?r = "hex_data_record bpl data s"
  from inv have off: "data_offset s \<le> length data"
    and cur: "current_address s = start + of_nat (data_offset s)"
    and cat: "concat (map ir_data ?ds) = take (data_offset s) data"
    and old: "\<And>i. i < length ?ds \<Longrightarrow> ir_type (?ds ! i) = DATA_RECORD \<and>
        unat (ir_address (?ds ! i))
          = (unat start + length (concat (map ir_data (take i ?ds)))) mod 65536"
    by (simp_all add: plain_inv_def)
  have n_le: "?n \<le> length data - data_offset s" by (rule hex_chunk_le)
  have em: "emitted (hex_body bpl False data s) = ?ds @ [?r]"
    by (simp add: hex_body_emitted)
  have 1: "data_offset (hex_body bpl False data s) \<le> length data"
    using off n_le by (simp add: hex_body_offset)
  have 2: "current_address (hex_body bpl False data s)
             = start + of_nat (data_offset (hex_body bpl False data s))"
    by (simp add: hex_body_address hex_body_offset cur)
  have 3: "concat (map ir_data (?ds @ [?r])) = take (data_offset s + ?n) data"
    by (simp add: cat hex_data_record_def take_add)
  have len: "length (concat (map ir_data ?ds)) = data_offset s"
    using off by (simp add: cat)
  have new: "ir_type ?r = DATA_RECORD \<and>
       unat (ir_address ?r) = (unat start + length (concat (map ir_data ?ds))) mod 65536"
    by (simp add: hex_data_record_def unat_low16 cur unat_add_of_nat_low16 len)
  have 4: "ir_type ((?ds @ [?r]) ! i) = DATA_RECORD \<and>
        unat (ir_address ((?ds @ [?r]) ! i))
          = (unat start + length (concat (map ir_data (take i (?ds @ [?r]))))) mod 65536"
    if "i < length (?ds @ [?r])" for i
  proof (cases "i < length ?ds")
    case True
    with old [OF True] show ?thesis by (simp add: nth_append)
  next
    case False
    with that have "i = length ?ds" by simp
    with new show ?thesis by simp
  qed
  show ?thesis
    unfolding plain_inv_def em
    using 1 2 3 4 by (simp add: hex_body_offset em)
qed

section \<open>The S-Record encoder: records and checksum\<close>

lemma get_address_bytes_range: "2 \<le> get_address_bytes t \<and> get_address_bytes t \<le> 4"
  by (cases t) simp_all

lemma length_srec_address_bytes:
  "length (srec_address_bytes t a) = get_address_bytes t"
  by (cases t) (simp_all add: srec_address_bytes_def)

lemma srec_address_field_bytes:
  "srec_address_field t a = concat (map byte_to_hex (srec_address_bytes t a))"
  by (cases t) (simp_all add: srec_address_field_def srec_address_bytes_def Let_def)

lemma srec_generate_record_layout:
  "srec_generate_record t a data =
     ''S'' @ type_to_string t @ byte_to_hex (srec_byte_count t data)
       @ concat (map byte_to_hex (srec_address_bytes t a))
       @ concat (map byte_to_hex data)
       @ byte_to_hex (srec_calculate_checksum (srec_byte_count t data) a (get_address_bytes t) data)"
  by (simp add: srec_generate_record_def Let_def foldl_append_hex srec_address_field_bytes)



lemma unat_minus_one_u32: "unat (- 1 :: u32) = 4294967295"
  by (simp add: unsigned_minus_1_eq_mask mask_eq_exp_minus_1)

lemma unat_not_u32: "unat (NOT (s :: u32)) = 4294967295 - unat s"
proof -
  have "NOT s = - 1 - s" by (simp add: not_eq_complement)
  moreover have "unat (- 1 - s) = unat (- 1 :: u32) - unat s"
    by (rule unat_sub) simp
  ultimately show ?thesis by (simp add: unat_minus_one_u32)
qed


lemma mod_256_complement:
  assumes "x < 4294967296"
  shows "(4294967295 - x) mod 256 = 255 - x mod (256 :: nat)"
proof -
  obtain q r where x: "x = 256 * q + r" and r: "r < 256"
    by (metis mod_less_divisor mult_div_mod_eq zero_less_numeral)
  from assms x have q: "q \<le> 16777215" by simp
  have "4294967295 - x = 256 * (16777215 - q) + (255 - r)"
    using x r q by simp
  then have "(4294967295 - x) mod 256 = (256 * (16777215 - q) + (255 - r)) mod 256"
    by (rule arg_cong)
  also have "\<dots> = 255 - r"
    by simp
  finally show ?thesis using x r by simp
qed

lemma unat_ones_complement_byte:
  fixes s :: u32
  shows "unat (ucast (NOT s AND 0xFF) :: u8) = 255 - unat s mod 256"
proof -
  have "unat (ucast (NOT s AND 0xFF) :: u8) = (4294967295 - unat s) mod 256"
    by (simp add: unat_ucast_to_u8 unat_and_255 unat_not_u32)
  also have "\<dots> = 255 - unat s mod 256"
    by (rule mod_256_complement) (rule unat_u32_less)
  finally show ?thesis .
qed


lemma ucast_ucast_low_byte: "(ucast (ucast (x :: u32) :: u8) :: u32) = x AND 0xFF"
  by (simp add: word_unat_eq_iff unat_ucast_u8_u32 unat_ucast_to_u8 unat_and_255)

lemma ucast_and_255_u32: "(ucast ((x :: u32) AND 0xFF) :: u8) = ucast x"
  by (simp add: word_unat_eq_iff unat_ucast_to_u8 unat_and_255)

lemma unat_of_nat_mod_256: "unat (of_nat n :: u32) mod 256 = n mod 256"
  by (simp add: unat_of_nat mod_mod_cancel)

lemma srec_address_sum:
  "(if get_address_bytes t \<ge> 4
    then (if get_address_bytes t \<ge> 3
          then (if get_address_bytes t \<ge> 2
                then (ucast bc :: u32) + (drop_bit 8 a AND 0xFF) + (a AND 0xFF) else ucast bc)
               + (drop_bit 16 a AND 0xFF)
          else (if get_address_bytes t \<ge> 2
                then (ucast bc :: u32) + (drop_bit 8 a AND 0xFF) + (a AND 0xFF) else ucast bc))
         + (drop_bit 24 a AND 0xFF)
    else (if get_address_bytes t \<ge> 3
          then (if get_address_bytes t \<ge> 2
                then (ucast bc :: u32) + (drop_bit 8 a AND 0xFF) + (a AND 0xFF) else ucast bc)
               + (drop_bit 16 a AND 0xFF)
          else (if get_address_bytes t \<ge> 2
                then (ucast bc :: u32) + (drop_bit 8 a AND 0xFF) + (a AND 0xFF) else ucast bc)))
   = of_nat (unat bc + sum_list (map unat (srec_address_bytes t a)))"
  by (cases t)
     (simp_all add: srec_address_bytes_def ucast_ucast_low_byte ucast_and_255_u32)

lemma srec_calculate_checksum_unat:
  "unat (srec_calculate_checksum bc a (get_address_bytes t) data)
     = 255 - (unat bc + sum_list (map unat (srec_address_bytes t a)) + sum_list (map unat data)) mod 256"
proof -
  let ?N = "unat bc + sum_list (map unat (srec_address_bytes t a))"
  have "unat (foldl (\<lambda>s byte. s + ucast byte) (of_nat ?N :: u32) data) mod 256
          = (unat (of_nat ?N :: u32) + sum_list (map unat data)) mod 256"
    by (simp only: unat_foldl_add) (simp add: mod_mod_cancel)
  also have "\<dots> = (unat (of_nat ?N :: u32) mod 256 + sum_list (map unat data)) mod 256"
    by (simp only: mod_add_left_eq)
  also have "\<dots> = (?N mod 256 + sum_list (map unat data)) mod 256"
    by (simp only: unat_of_nat_mod_256)
  also have "\<dots> = (?N + sum_list (map unat data)) mod 256"
    by (simp only: mod_add_left_eq)
  finally show ?thesis
    by (simp only: srec_calculate_checksum_def Let_def srec_address_sum unat_ones_complement_byte)
qed

section \<open>The S-Record encoder: the loop\<close>

lemma srec_body_offset:
  "s_data_offset (srec_body bpl dt data st) = s_data_offset st + srec_chunk bpl dt data st"
  by (simp add: srec_body_def Let_def srec_chunk_def)

lemma srec_body_emitted:
  "s_emitted (srec_body bpl dt data st) = s_emitted st @ [srec_data_record bpl dt data st]"
  by (simp add: srec_body_def Let_def srec_chunk_def srec_data_record_def)

lemma srec_chunk_pos:
  "0 < bpl \<Longrightarrow> s_data_offset st < length data \<Longrightarrow> 0 < srec_chunk bpl dt data st"
  using get_address_bytes_range [of dt] by (simp add: srec_chunk_def)

lemma srec_chunk_le:
  "srec_chunk bpl dt data st \<le> bpl"
  "srec_chunk bpl dt data st \<le> length data - s_data_offset st"
  "srec_chunk bpl dt data st \<le> 255 - get_address_bytes dt - 1"
  by (simp_all add: srec_chunk_def)

lemma srec_loop_rule:
  assumes run: "srec_loop bpl dt data st = Some st'"
    and init: "I st"
    and step: "\<And>s. I s \<Longrightarrow> s_data_offset s < length data \<Longrightarrow> I (srec_body bpl dt data s)"
  shows "I st' \<and> \<not> s_data_offset st' < length data"
proof -
  define P where "P = (\<lambda>(b::nat) (t::srec_type) (d::u8 list) s s'.
    b = bpl \<longrightarrow> t = dt \<longrightarrow> d = data \<longrightarrow> I s \<longrightarrow> I s' \<and> \<not> s_data_offset s' < length data)"
  have "P bpl dt data st st'"
  proof (rule srec_loop.raw_induct [where P = P, OF _ run])
    fix loop b t d s y
    assume IH: "\<And>b t d s y. loop b t d s = Some y \<Longrightarrow> P b t d s y"
      and eq: "(if s_data_offset s < length d then loop b t d (srec_body b t d s) else Some s) = Some y"
    show "P b t d s y"
    proof (cases "s_data_offset s < length d")
      case True
      with eq have "P b t d (srec_body b t d s) y" by (simp add: IH)
      with True show ?thesis by (auto simp: P_def intro: step)
    next
      case False
      with eq show ?thesis by (auto simp: P_def)
    qed
  qed
  with init show ?thesis by (simp add: P_def)
qed

lemma srec_loop_returns:
  assumes "0 < bpl"
  shows "\<exists>st'. srec_loop bpl dt data st = Some st'"
proof (induction "length data - s_data_offset st" arbitrary: st rule: less_induct)
  case less
  show ?case
  proof (cases "s_data_offset st < length data")
    case True
    let ?st1 = "srec_body bpl dt data st"
    have "length data - s_data_offset ?st1 < length data - s_data_offset st"
      using True srec_chunk_pos [OF assms True, of dt] srec_chunk_le(2) [of bpl dt data st]
      by (simp add: srec_body_offset)
    from less [OF this] obtain st' where "srec_loop bpl dt data ?st1 = Some st'" by blast
    with True show ?thesis by (subst srec_loop.simps) simp
  next
    case False
    then show ?thesis by (subst srec_loop.simps) simp
  qed
qed

lemma srec_records_returns:
  "0 < bpl \<Longrightarrow> \<exists>recs. srec_records bpl data start asz header = Some recs"
  using srec_loop_returns [of bpl]
  by (simp add: srec_records_def Let_def)

lemma srec_body_count:
  "s_record_count (srec_body bpl dt data st) = s_record_count st + 1"
  by (simp add: srec_body_def Let_def)

text \<open>The shape of a run's output: header, data records, count, end.\<close>

lemma srec_records_shape:
  assumes run: "srec_records bpl data start asz header = Some recs"
  shows "\<exists>ds. recs = (if header \<noteq> [] then [header_record header] else []) @ ds
            @ (if (of_nat (length ds) :: u32) \<le> 0xFFFF then [count_record (of_nat (length ds))] else [])
            @ [end_record (get_end_record_type asz) start] \<and>
          (\<forall>d\<in>set ds. sr_type d = get_data_record_type asz \<and>
             length (sr_data d) \<le> 255 - get_address_bytes (get_data_record_type asz) - 1 \<and>
             length (sr_data d) \<le> bpl)"
proof -
  let ?hd = "if header \<noteq> [] then [header_record header] else []"
  let ?dt = "get_data_record_type asz"
  let ?ok = "\<lambda>d::srec_record. sr_type d = ?dt
      \<and> length (sr_data d) \<le> 255 - get_address_bytes ?dt - 1 \<and> length (sr_data d) \<le> bpl"
  let ?I = "\<lambda>s::srec_state. \<exists>ds. s_emitted s = ?hd @ ds \<and> s_record_count s = of_nat (length ds)
      \<and> (\<forall>d\<in>set ds. ?ok d)"
  from run obtain st where loop: "srec_loop bpl ?dt data (srec_init start ?hd) = Some st"
    and recs: "recs = s_emitted st
                  @ (if s_record_count st \<le> 0xFFFF then [count_record (s_record_count st)] else [])
                  @ [end_record (get_end_record_type asz) start]"
    by (auto simp: srec_records_def Let_def)
  have init: "?I (srec_init start ?hd)"
    by (simp add: srec_init_def)
  have step: "?I (srec_body bpl ?dt data s)" if "?I s" for s
  proof -
    from that obtain ds where ds: "s_emitted s = ?hd @ ds"
      and cnt: "s_record_count s = of_nat (length ds)"
      and ok: "\<forall>d\<in>set ds. ?ok d"
      by blast
    let ?r = "srec_data_record bpl ?dt data s"
    have "s_emitted (srec_body bpl ?dt data s) = ?hd @ (ds @ [?r])"
      by (simp add: srec_body_emitted ds)
    moreover have "s_record_count (srec_body bpl ?dt data s) = of_nat (length (ds @ [?r]))"
      by (simp add: srec_body_count cnt)
    moreover have "?ok ?r"
      using srec_chunk_le [of bpl ?dt data s]
      by (simp add: srec_data_record_def)
    with ok have "\<forall>d\<in>set (ds @ [?r]). ?ok d" by simp
    ultimately show ?thesis by blast
  qed
  from srec_loop_rule [OF loop, of ?I, OF init step] obtain ds
    where ds: "s_emitted st = ?hd @ ds" and cnt: "s_record_count st = of_nat (length ds)"
      and ok: "\<forall>d\<in>set ds. ?ok d"
    by blast
  from recs ds cnt have "recs = ?hd @ ds
            @ (if (of_nat (length ds) :: u32) \<le> 0xFFFF then [count_record (of_nat (length ds))] else [])
            @ [end_record (get_end_record_type asz) start]"
    by simp
  with ok show ?thesis by blast
qed

lemma address_big_endian_expand:
  "address_big_endian 2 a = byte_to_hex (ucast (drop_bit 8 a)) @ byte_to_hex (ucast a)"
  "address_big_endian 3 a =
     byte_to_hex (ucast (drop_bit 16 a)) @ byte_to_hex (ucast (drop_bit 8 a)) @ byte_to_hex (ucast a)"
  "address_big_endian 4 a =
     byte_to_hex (ucast (drop_bit 24 a)) @ byte_to_hex (ucast (drop_bit 16 a))
       @ byte_to_hex (ucast (drop_bit 8 a)) @ byte_to_hex (ucast a)"
proof -
  have 2: "(2 :: nat) = Suc (Suc 0)" and 3: "(3 :: nat) = Suc (Suc (Suc 0))"
    and 4: "(4 :: nat) = Suc (Suc (Suc (Suc 0)))" by simp_all
  show "address_big_endian 2 a = byte_to_hex (ucast (drop_bit 8 a)) @ byte_to_hex (ucast a)"
    unfolding 2 by simp
  show "address_big_endian 3 a =
     byte_to_hex (ucast (drop_bit 16 a)) @ byte_to_hex (ucast (drop_bit 8 a)) @ byte_to_hex (ucast a)"
    unfolding 3 by simp
  show "address_big_endian 4 a =
     byte_to_hex (ucast (drop_bit 24 a)) @ byte_to_hex (ucast (drop_bit 16 a))
       @ byte_to_hex (ucast (drop_bit 8 a)) @ byte_to_hex (ucast a)"
    unfolding 4 by simp
qed

lemma srec_address_field_16_big_endian:
  "get_address_bytes t = 2 \<Longrightarrow> srec_address_field t a = address_big_endian 2 a"
  by (simp add: srec_address_field_def Let_def address_big_endian_expand ucast_and_255_u32)

lemma srec_byte_count_exact:
  assumes run: "srec_records bpl data start asz header = Some recs"
    and r: "r \<in> set recs"
    and hdr: "length header \<le> 252"
  shows "unat (srec_byte_count (sr_type r) (sr_data r))
           = get_address_bytes (sr_type r) + length (sr_data r) + 1"
proof -
  let ?dt = "get_data_record_type asz"
  from srec_records_shape [OF run] obtain ds
    where recs: "recs = (if header \<noteq> [] then [header_record header] else []) @ ds
            @ (if (of_nat (length ds) :: u32) \<le> 0xFFFF then [count_record (of_nat (length ds))] else [])
            @ [end_record (get_end_record_type asz) start]"
      and ok: "\<forall>d\<in>set ds. sr_type d = ?dt \<and> length (sr_data d) \<le> 255 - get_address_bytes ?dt - 1
                 \<and> length (sr_data d) \<le> bpl"
    by blast
  have small: "get_address_bytes (sr_type r) + length (sr_data r) + 1 < 256"
  proof -
    from r recs consider "r = header_record header" | "r \<in> set ds"
      | "r = count_record (of_nat (length ds))" | "r = end_record (get_end_record_type asz) start"
      by (auto split: if_splits)
    then show ?thesis
    proof cases
      case 1
      with hdr show ?thesis by (simp add: header_record_def)
    next
      case 2
      with ok have t: "sr_type r = ?dt"
        and "length (sr_data r) \<le> 255 - get_address_bytes ?dt - 1"
        by auto
      with get_address_bytes_range [of ?dt]
      have "get_address_bytes ?dt + length (sr_data r) + 1 < 256" by arith
      with t show ?thesis by simp
    next
      case 3
      then show ?thesis by (simp add: count_record_def)
    next
      case 4
      with get_address_bytes_range [of "get_end_record_type asz"] show ?thesis
        by (simp add: end_record_def)
    qed
  qed
  then show ?thesis
    unfolding srec_byte_count_def by (simp only: unat_of_nat) simp
qed

lemma hex_records_empty: "hex_records bpl [] start ext = Some [eof_record]"
  by (simp add: hex_records_def hex_loop.simps hex_init_def)

lemma srec_records_empty:
  "srec_records bpl [] start asz header =
     Some ((if header \<noteq> [] then [header_record header] else [])
           @ [count_record 0, end_record (get_end_record_type asz) start])"
  by (simp add: srec_records_def srec_loop.simps srec_init_def Let_def)

section \<open>The Intel HEX encoder: crossing a page with extended addressing\<close>

lemma to_boundary_range: "0 < to_boundary a \<and> to_boundary a \<le> 65536"
  by (simp add: to_boundary_def)

lemma unat_add_in_page:
  assumes "off < to_boundary start"
  shows "unat (start + of_nat off :: u32) = unat start + off"
proof -
  define q r where "q = unat start div 65536" and "r = unat start mod 65536"
  have a: "unat start = 65536 * q + r" and r: "r < 65536"
    by (simp_all add: q_def r_def)
  from unat_u32_less [of start] a have q: "q < 65536" by simp
  from assms have off: "off < 65536 - r" by (simp add: to_boundary_def r_def)
  with a q r have lt: "unat start + off < 4294967296" by simp
  from off have "off < 4294967296" by simp
  with lt show ?thesis
    by (simp add: unat_word_ariths unat_of_nat)
qed

lemma page_in_page:
  assumes "off < to_boundary start"
  shows "drop_bit 16 (start + of_nat off :: u32) = drop_bit 16 start"
proof -
  define q r where "q = unat start div 65536" and "r = unat start mod 65536"
  have a: "unat start = 65536 * q + r" and r: "r < 65536"
    by (simp_all add: q_def r_def)
  from assms have off: "r + off < 65536" by (simp add: to_boundary_def r_def)
  have "(unat start + off) div 65536 = (65536 * q + (r + off)) div 65536"
    by (simp add: a)
  also have "\<dots> = q" using off by simp
  finally have "(unat start + off) div 65536 = unat start div 65536"
    by (simp add: q_def)
  then show ?thesis
    by (simp add: word_unat_eq_iff unat_drop_bit_eq drop_bit_nat_def unat_add_in_page [OF assms])
qed

lemma low16_in_page:
  assumes "off < to_boundary start"
  shows "unat (start + of_nat off :: u32) mod 65536 = unat start mod 65536 + off"
proof -
  from assms have "unat start mod 65536 + off < 65536" by (simp add: to_boundary_def)
  then have "(unat start mod 65536 + off) mod 65536 = unat start mod 65536 + off"
    by simp
  moreover have "(unat start + off) mod 65536 = (unat start mod 65536 + off) mod 65536"
    by (simp add: mod_add_left_eq)
  ultimately show ?thesis by (simp add: unat_add_in_page [OF assms])
qed

lemma next_page_aligned:
  "unat (start + of_nat (to_boundary start) :: u32) mod 65536 = 0"
proof -
  define q r where "q = unat start div 65536" and "r = unat start mod 65536"
  have a: "unat start = 65536 * q + r" and r: "r < 65536"
    by (simp_all add: q_def r_def)
  have "unat start + to_boundary start = 65536 * (q + 1)"
    using a r by (simp add: to_boundary_def r_def [symmetric])
  then show ?thesis
    by (simp only: unat_add_of_nat_low16) simp
qed

lemma next_page_boundary: "to_boundary (start + of_nat (to_boundary start)) = 65536"
  by (simp add: to_boundary_def [of "start + of_nat (to_boundary start)"] next_page_aligned)

lemma next_page_differs:
  "drop_bit 16 (start + of_nat (to_boundary start) :: u32) \<noteq> drop_bit 16 start"
proof -
  define q r where "q = unat start div 65536" and "r = unat start mod 65536"
  have a: "unat start = 65536 * q + r" and r: "r < 65536"
    by (simp_all add: q_def r_def)
  from unat_u32_less [of start] a have q: "q < 65536" by simp
  have sum: "unat start + to_boundary start = 65536 * (q + 1)"
    using a r by (simp add: to_boundary_def r_def [symmetric])
  have b: "to_boundary start < 4294967296"
    using to_boundary_range [of start] by simp
  have u: "unat (start + of_nat (to_boundary start) :: u32) = (65536 * (q + 1)) mod 4294967296"
    using b by (simp add: unat_word_ariths unat_of_nat sum)
  have "(65536 * (q + 1)) mod 4294967296 div 65536 \<noteq> q"
  proof (cases "q = 65535")
    case True
    then show ?thesis by simp
  next
    case False
    with q have "65536 * (q + 1) < 4294967296" by simp
    then show ?thesis by simp
  qed
  then have "unat (drop_bit 16 (start + of_nat (to_boundary start) :: u32)) \<noteq> unat (drop_bit 16 start)"
    by (simp add: unat_drop_bit_eq drop_bit_nat_def u q_def)
  then show ?thesis by (simp add: word_unat_eq_iff)
qed

lemma page_not_unset: "drop_bit 16 (c :: u32) \<noteq> 0xFFFFFFFF"
proof
  assume "drop_bit 16 c = 0xFFFFFFFF"
  then have "unat (drop_bit 16 c) = unat (0xFFFFFFFF :: u32)" by simp
  moreover have "unat (drop_bit 16 c) < 65536"
    using unat_u32_less [of c] by (simp add: unat_drop_bit_eq drop_bit_nat_def)
  ultimately show False by simp
qed

lemma all_data_simps [simp]:
  "all_data []"
  "all_data (ds @ [hex_data_record bpl data st]) = all_data ds"
  by (auto simp: all_data_def hex_data_record_def)

lemma ext_inv_init: "ext_inv start data (hex_init start)"
  by (simp add: ext_inv_def hex_init_def)

lemma ext_inv_step:
  assumes inv: "ext_inv start data st"
    and more: "data_offset st < length data"
    and bpl: "0 < bpl"
    and len: "length data \<le> to_boundary start + 65536"
  shows "ext_inv start data (hex_body bpl True data st)"
proof -
  let ?off = "data_offset st"
  let ?n = "hex_chunk bpl data st"
  let ?r = "hex_data_record bpl data st"
  let ?st' = "hex_body bpl True data st"
  from inv have cur: "current_address st = start + of_nat ?off"
    by (simp add: ext_inv_def)
  have n_pos: "0 < ?n" using bpl more by (rule hex_chunk_pos)
  have n_len: "?n \<le> length data - ?off" by (rule hex_chunk_le)
  have n_page: "?n \<le> 65536 - unat (current_address st) mod 65536" by (rule hex_chunk_le)
  have cur': "current_address ?st' = start + of_nat (data_offset ?st')"
    by (simp add: hex_body_address hex_body_offset cur)
  have off': "data_offset ?st' \<le> length data"
    using more n_len by (simp add: hex_body_offset)
  from inv consider
      (A) "?off = 0" "emitted st = []" "extended_address st = 0xFFFFFFFF"
    | (B) ds1 where "0 < ?off" "?off \<le> to_boundary start"
        "extended_address st = drop_bit 16 start"
        "ds1 \<noteq> []" "all_data ds1" "emitted st = extended_address_record start # ds1"
    | (C) ds1 ds2 where "to_boundary start < ?off"
        "extended_address st = drop_bit 16 (next_page start)"
        "ds1 \<noteq> []" "ds2 \<noteq> []" "all_data ds1" "all_data ds2" "ir_address (hd ds2) = 0"
        "emitted st = extended_address_record start # ds1
                        @ extended_address_record (next_page start) # ds2"
    unfolding ext_inv_def by (elim conjE disjE exE) blast+
  then have "(0 < data_offset ?st' \<and> data_offset ?st' \<le> to_boundary start \<and>
       extended_address ?st' = drop_bit 16 start \<and>
       (\<exists>ds1. ds1 \<noteq> [] \<and> all_data ds1 \<and>
              emitted ?st' = extended_address_record start # ds1)) \<or>
      (to_boundary start < data_offset ?st' \<and>
       extended_address ?st' = drop_bit 16 (next_page start) \<and>
       (\<exists>ds1 ds2. ds1 \<noteq> [] \<and> ds2 \<noteq> [] \<and> all_data ds1 \<and> all_data ds2 \<and>
              ir_address (hd ds2) = 0 \<and>
              emitted ?st' = extended_address_record start # ds1
                             @ extended_address_record (next_page start) # ds2))"
  proof cases
    case A
    from A(1) cur have c: "current_address st = start" by simp
    have ne: "drop_bit 16 start \<noteq> extended_address st"
      using page_not_unset [of start] A(3) by simp
    have em: "emitted ?st' = extended_address_record start # [?r]"
      using ne by (simp add: hex_body_emitted c A(2))
    have ex: "extended_address ?st' = drop_bit 16 start"
      using ne by (simp add: hex_body_extended c)
    have "data_offset ?st' \<le> to_boundary start"
      using n_page by (simp add: hex_body_offset A(1) c to_boundary_def)
    moreover have "0 < data_offset ?st'"
      using n_pos by (simp add: hex_body_offset)
    moreover have "[?r] \<noteq> [] \<and> all_data [?r]"
      using all_data_simps(2) [of "[]" bpl data st] by simp
    ultimately show ?thesis using em ex by blast
  next
    case B
    show ?thesis
    proof (cases "?off < to_boundary start")
      case True
      have pg: "drop_bit 16 (current_address st) = extended_address st"
        by (simp add: cur page_in_page [OF True] B(3))
      have em: "emitted ?st' = extended_address_record start # (ds1 @ [?r])"
        using pg by (simp add: hex_body_emitted B(6))
      have ex: "extended_address ?st' = drop_bit 16 start"
        using pg by (simp add: hex_body_extended B(3))
      have "unat (current_address st) mod 65536 = unat start mod 65536 + ?off"
        by (simp add: cur low16_in_page [OF True])
      with n_page have "?n \<le> to_boundary start - ?off"
        by (simp add: to_boundary_def)
      with True have "data_offset ?st' \<le> to_boundary start"
        by (simp add: hex_body_offset)
      moreover have "0 < data_offset ?st'"
        using n_pos by (simp add: hex_body_offset)
      moreover have "ds1 @ [?r] \<noteq> [] \<and> all_data (ds1 @ [?r])"
        using B(5) by simp
      ultimately show ?thesis using em ex by blast
    next
      case False
      with B(2) have eq: "?off = to_boundary start" by simp
      have c: "current_address st = next_page start"
        by (simp add: cur eq next_page_def)
      have ne: "drop_bit 16 (current_address st) \<noteq> extended_address st"
        using next_page_differs [of start] by (simp add: c B(3) next_page_def)
      have em: "emitted ?st' = extended_address_record start # ds1
                  @ extended_address_record (next_page start) # [?r]"
        using ne by (simp add: hex_body_emitted B(6) c)
      have ex: "extended_address ?st' = drop_bit 16 (next_page start)"
        using ne by (simp add: hex_body_extended c)
      have "unat (ir_address ?r) = 0"
        using next_page_aligned [of start]
        by (simp add: hex_data_record_def unat_low16 c next_page_def)
      then have addr: "ir_address (hd [?r]) = 0"
        by (simp add: word_unat_eq_iff)
      have "to_boundary start < data_offset ?st'"
        using n_pos by (simp add: hex_body_offset eq)
      moreover have "[?r] \<noteq> [] \<and> all_data [?r]"
        using all_data_simps(2) [of "[]" bpl data st] by simp
      ultimately show ?thesis using em ex addr B(4,5) by blast
    qed
  next
    case C
    let ?k = "?off - to_boundary start"
    have k: "?k < to_boundary (next_page start)"
      using more len C(1) by (simp add: next_page_def next_page_boundary)
    have c: "current_address st = next_page start + of_nat ?k"
      using C(1) by (simp add: cur next_page_def)
    have pg: "drop_bit 16 (current_address st) = extended_address st"
      by (simp add: c page_in_page [OF k] C(2))
    have em: "emitted ?st' = extended_address_record start # ds1
                @ extended_address_record (next_page start) # (ds2 @ [?r])"
      using pg by (simp add: hex_body_emitted C(8))
    have ex: "extended_address ?st' = drop_bit 16 (next_page start)"
      using pg by (simp add: hex_body_extended C(2))
    have "to_boundary start < data_offset ?st'"
      using C(1) by (simp add: hex_body_offset)
    moreover have "ds2 @ [?r] \<noteq> [] \<and> all_data (ds2 @ [?r]) \<and> ir_address (hd (ds2 @ [?r])) = 0"
      using C(4,6,7) by simp
    ultimately show ?thesis using em ex C(3,5) by blast
  qed
  with cur' off' show ?thesis
    unfolding ext_inv_def by blast
qed

lemma filter_all_data: "all_data ds \<Longrightarrow> filter is_extended_address ds = []"
  by (induction ds) (simp_all add: all_data_def is_extended_address_def intel_type_defs)

lemma is_extended_address_simps [simp]:
  "is_extended_address (extended_address_record a)"
  "\<not> is_extended_address eof_record"
  by (simp_all add: is_extended_address_def extended_address_record_def eof_record_def
      intel_type_defs Let_def)

lemma hex_body_plain_no_extended:
  assumes "\<forall>r\<in>set (emitted s). ir_type r \<noteq> EXTENDED_LINEAR_ADDRESS"
  shows "\<forall>r\<in>set (emitted (hex_body bpl False data s)). ir_type r \<noteq> EXTENDED_LINEAR_ADDRESS"
  using assms by (auto simp: hex_body_emitted hex_data_record_def intel_type_defs)

section \<open>The lines determine the records\<close>

text \<open>
  The hex text of a byte determines the byte, so a line written by either encoder
  determines the arguments of the \<^verbatim>\<open>generate_record\<close> call that produced it: all of
  them for an Intel HEX line; the type, the payload and the address bytes that the type
  carries for an S-Record line. A statement about the records of a run is therefore a
  statement about the lines of the output file.
\<close>

lemma uint_nibble_less: "uint ((v :: u8) AND 0x0F) < 16"
proof -
  have "unat (v AND 0x0F) < 16"
    by (simp add: and_15_take_bit unsigned_take_bit_eq take_bit_nat_def)
  then have "int (unat (v AND 0x0F)) < 16" by linarith
  then show ?thesis by simp
qed

lemma hex_digit_value_nibble:
  assumes "uint n < 16"
  shows "hex_digit_value (nibble_to_hex n) = uint n"
proof (cases "n < 10")
  case True
  then have "uint n < 10" by (simp add: word_less_def)
  moreover have "0 \<le> uint n" by simp
  ultimately have "(48 + uint n) mod 256 = 48 + uint n" by simp
  with True \<open>uint n < 10\<close> show ?thesis
    by (simp add: nibble_to_hex_def hex_digit_value_def)
next
  case False
  then have "10 \<le> uint n" by (simp add: word_less_def)
  with assms have "(65 + uint n - 10) mod 256 = 55 + uint n" by simp
  with False \<open>10 \<le> uint n\<close> show ?thesis
    by (simp add: nibble_to_hex_def hex_digit_value_def)
qed

lemma nibble_to_hex_inject:
  assumes "nibble_to_hex n = nibble_to_hex m" and "uint n < 16" and "uint m < 16"
  shows "n = m"
proof -
  from assms(1) have "hex_digit_value (nibble_to_hex n) = hex_digit_value (nibble_to_hex m)"
    by (rule arg_cong)
  with assms(2,3) have "uint n = uint m" by (simp only: hex_digit_value_nibble)
  then show ?thesis by (rule word_uint_eqI)
qed


lemma byte_from_nibbles:
  fixes v w :: u8
  assumes hi: "drop_bit 4 v AND 0x0F = drop_bit 4 w AND 0x0F" and lo: "v AND 0x0F = w AND 0x0F"
  shows "v = w"
proof -
  have split: "unat x = 16 * unat (drop_bit 4 x AND 0x0F) + unat (x AND 0x0F)" for x :: u8
  proof -
    have "unat x div 16 < 16" using unat_u8_less [of x] by simp
    then have "unat (drop_bit 4 x AND 0x0F) = unat x div 16"
      by (simp add: and_15_take_bit unsigned_take_bit_eq take_bit_nat_def unat_drop_bit_eq
          drop_bit_nat_def)
    moreover have "unat (x AND 0x0F) = unat x mod 16"
      by (simp add: and_15_take_bit unsigned_take_bit_eq take_bit_nat_def)
    ultimately show ?thesis by simp
  qed
  have "unat v = unat w"
    by (simp only: split [of v] split [of w] hi lo)
  then show ?thesis by (simp only: word_unat_eq_iff)
qed

lemma byte_to_hex_inject:
  assumes "byte_to_hex v = byte_to_hex w"
  shows "v = w"
proof -
  from assms have hi: "nibble_to_hex (drop_bit 4 v AND 0x0F) = nibble_to_hex (drop_bit 4 w AND 0x0F)"
    and lo: "nibble_to_hex (v AND 0x0F) = nibble_to_hex (w AND 0x0F)"
    by (simp_all add: byte_to_hex_def)
  from hi have "drop_bit 4 v AND 0x0F = drop_bit 4 w AND 0x0F"
    by (rule nibble_to_hex_inject) (rule uint_nibble_less)+
  moreover from lo have "v AND 0x0F = w AND 0x0F"
    by (rule nibble_to_hex_inject) (rule uint_nibble_less)+
  ultimately show ?thesis by (rule byte_from_nibbles)
qed

lemma length_byte_to_hex: "length (byte_to_hex v) = 2"
  by (simp add: byte_to_hex_def)

lemma length_hex_bytes: "length (concat (map byte_to_hex xs)) = 2 * length xs"
  by (induction xs) (simp_all add: length_byte_to_hex)

lemma hex_bytes_inject:
  assumes "concat (map byte_to_hex xs) @ s = concat (map byte_to_hex ys) @ t"
    and "length s = length t"
  shows "xs = ys \<and> s = t"
  using assms
proof (induction xs arbitrary: ys)
  case Nil
  then have "length s = length (concat (map byte_to_hex ys)) + length t"
    by (metis append_Nil concat.simps(1) length_append list.simps(8))
  with Nil.prems(2) have "ys = []" by (simp add: length_hex_bytes)
  with Nil show ?case by simp
next
  case (Cons x xs)
  show ?case
  proof (cases ys)
    case Nil
    with Cons.prems(1) have "length (concat (map byte_to_hex (x # xs))) + length s = length t"
      by (metis append_Nil concat.simps(1) length_append list.simps(8))
    with Cons.prems(2) show ?thesis by (simp add: length_byte_to_hex)
  next
    case (Cons y ys')
    with Cons.prems(1) have eq: "byte_to_hex x @ (concat (map byte_to_hex xs) @ s)
        = byte_to_hex y @ (concat (map byte_to_hex ys') @ t)"
      by simp
    then have x: "byte_to_hex x = byte_to_hex y"
      and rest: "concat (map byte_to_hex xs) @ s = concat (map byte_to_hex ys') @ t"
      by (simp_all add: append_eq_append_conv length_byte_to_hex)
    from Cons.IH [OF rest Cons.prems(2)] x Cons show ?thesis
      by (simp add: byte_to_hex_inject)
  qed
qed


lemma u16_from_bytes:
  fixes a b :: u16
  assumes hi: "(ucast (drop_bit 8 a) :: u8) = ucast (drop_bit 8 b)"
    and lo: "(ucast (a AND 0xFF) :: u8) = ucast (b AND 0xFF)"
  shows "a = b"
proof -
  have split: "unat x = 256 * unat (ucast (drop_bit 8 x) :: u8) + unat (ucast (x AND 0xFF) :: u8)"
    for x :: u16
  proof -
    have "unat x div 256 < 256" using unat_u16_less [of x] by simp
    then have "unat (ucast (drop_bit 8 x) :: u8) = unat x div 256"
      by (simp add: unat_ucast_to_u8 unat_drop_bit_eq drop_bit_nat_def)
    moreover have "unat (ucast (x AND 0xFF) :: u8) = unat x mod 256"
      by (simp add: unat_ucast_to_u8 unat_and_255)
    ultimately show ?thesis by simp
  qed
  have "unat a = unat b"
    by (simp only: split [of a] split [of b] hi lo)
  then show ?thesis by (simp only: word_unat_eq_iff)
qed

lemma generate_record_bytes:
  "generate_record bc a ty data =
     '':'' @ concat (map byte_to_hex
                       ([bc, ucast (drop_bit 8 a), ucast (a AND 0xFF), ty] @ data))
       @ byte_to_hex (calculate_checksum bc a ty data)"
  by (simp add: generate_record_layout)

lemma render_intel_inject:
  fixes r r' :: intel_record
  assumes "render_intel r = render_intel r'"
  shows "r = r'"
proof -
  from assms have "concat (map byte_to_hex
            ([ir_byte_count r, ucast (drop_bit 8 (ir_address r)), ucast (ir_address r AND 0xFF),
              ir_type r] @ ir_data r))
          @ byte_to_hex (calculate_checksum (ir_byte_count r) (ir_address r) (ir_type r) (ir_data r))
       = concat (map byte_to_hex
            ([ir_byte_count r', ucast (drop_bit 8 (ir_address r')), ucast (ir_address r' AND 0xFF),
              ir_type r'] @ ir_data r'))
          @ byte_to_hex (calculate_checksum (ir_byte_count r') (ir_address r') (ir_type r') (ir_data r'))"
    by (simp only: render_intel_def generate_record_bytes) simp
  then have "[ir_byte_count r, ucast (drop_bit 8 (ir_address r)), ucast (ir_address r AND 0xFF),
              ir_type r] @ ir_data r
        = [ir_byte_count r', ucast (drop_bit 8 (ir_address r')), ucast (ir_address r' AND 0xFF),
              ir_type r'] @ ir_data r'"
    by (rule hex_bytes_inject [THEN conjunct1]) (simp add: length_byte_to_hex)
  then have "ir_byte_count r = ir_byte_count r'" and "ir_type r = ir_type r'"
    and "ir_data r = ir_data r'"
    and "(ucast (drop_bit 8 (ir_address r)) :: u8) = ucast (drop_bit 8 (ir_address r'))"
    and "(ucast (ir_address r AND 0xFF) :: u8) = ucast (ir_address r' AND 0xFF)"
    by simp_all
  moreover from this(4,5) have "ir_address r = ir_address r'" by (rule u16_from_bytes)
  ultimately show ?thesis by simp
qed

lemma type_to_string_inject: "type_to_string t = type_to_string t' \<Longrightarrow> t = t'"
  by (cases t; cases t') simp_all

lemma length_type_to_string: "length (type_to_string t) = 1"
  by (cases t) simp_all

lemma render_srec_inject:
  fixes r r' :: srec_record
  assumes "render_srec r = render_srec r'"
  shows "sr_type r = sr_type r' \<and> sr_data r = sr_data r' \<and>
         srec_address_bytes (sr_type r) (sr_address r)
           = srec_address_bytes (sr_type r') (sr_address r')"
proof -
  let ?bytes = "\<lambda>r::srec_record. [srec_byte_count (sr_type r) (sr_data r)]
                  @ srec_address_bytes (sr_type r) (sr_address r) @ sr_data r"
  let ?ck = "\<lambda>r::srec_record. byte_to_hex (srec_calculate_checksum
                  (srec_byte_count (sr_type r) (sr_data r)) (sr_address r)
                  (get_address_bytes (sr_type r)) (sr_data r))"
  have layout: "render_srec r = ''S'' @ type_to_string (sr_type r)
                  @ (concat (map byte_to_hex (?bytes r)) @ ?ck r)" for r :: srec_record
    by (simp add: render_srec_def srec_generate_record_layout)
  from assms have eq: "type_to_string (sr_type r) @ (concat (map byte_to_hex (?bytes r)) @ ?ck r)
      = type_to_string (sr_type r') @ (concat (map byte_to_hex (?bytes r')) @ ?ck r')"
    by (simp only: layout) simp
  then have ty: "type_to_string (sr_type r) = type_to_string (sr_type r')"
    and rest: "concat (map byte_to_hex (?bytes r)) @ ?ck r
                = concat (map byte_to_hex (?bytes r')) @ ?ck r'"
    by (simp_all add: append_eq_append_conv length_type_to_string)
  from ty have t: "sr_type r = sr_type r'" by (rule type_to_string_inject)
  from rest have "?bytes r = ?bytes r'"
    by (rule hex_bytes_inject [THEN conjunct1]) (simp add: length_byte_to_hex)
  then have "srec_address_bytes (sr_type r) (sr_address r) @ sr_data r
      = srec_address_bytes (sr_type r') (sr_address r') @ sr_data r'"
    by simp
  then have "srec_address_bytes (sr_type r) (sr_address r)
      = srec_address_bytes (sr_type r') (sr_address r') \<and> sr_data r = sr_data r'"
    by (simp add: append_eq_append_conv length_srec_address_bytes t)
  with t show ?thesis by simp
qed

lemma srec_address_field_length:
  "length (srec_address_field t a) = 2 * get_address_bytes t"
  by (simp add: srec_address_field_bytes length_hex_bytes length_srec_address_bytes)

section \<open>Claims about the Intel HEX encoder\<close>

text \<open>
  Claim C6. For every buffer, start address and line width, every data record written by
  \<^verbatim>\<open>convert_to_hex\<close> has a payload of at most \<open>bytes_per_line\<close> bytes, and its address
  range stays inside one 64 KiB page: the 16-bit address plus the payload length is at
  most \<open>0x10000\<close>, which is the clamp \<open>0x10000 - (current_address & 0xFFFF)\<close>. The run
  returns whenever the line width is positive.
\<close>

theorem intel_data_record_bounds:
  "(0 < bpl \<longrightarrow> (\<exists>recs. hex_records bpl data start ext = Some recs)) \<and>
   (\<forall>recs r. hex_records bpl data start ext = Some recs \<longrightarrow> r \<in> set recs
      \<longrightarrow> ir_type r = DATA_RECORD
      \<longrightarrow> length (ir_data r) \<le> bpl \<and> unat (ir_address r) + length (ir_data r) \<le> 0x10000)"
proof (intro conjI allI impI)
  assume "0 < bpl"
  then show "\<exists>recs. hex_records bpl data start ext = Some recs"
    by (rule hex_records_returns)
next
  fix recs r
  assume run: "hex_records bpl data start ext = Some recs"
    and r: "r \<in> set recs" and ty: "ir_type r = DATA_RECORD"
  let ?I = "\<lambda>s::hex_state. \<forall>r\<in>set (emitted s). ir_type r = DATA_RECORD \<longrightarrow> data_record_ok bpl r"
  have "\<exists>st. recs = emitted st @ [eof_record] \<and> ?I st \<and> \<not> data_offset st < length data"
    by (rule hex_records_invariant [OF run]) (simp_all add: hex_init_def hex_body_data_ok)
  then obtain st where recs: "recs = emitted st @ [eof_record]" and inv: "?I st" by blast
  from r ty recs have "r \<in> set (emitted st)"
    by (auto simp: eof_record_def intel_type_defs)
  with inv ty have "data_record_ok bpl r" by blast
  then show "length (ir_data r) \<le> bpl" and "unat (ir_address r) + length (ir_data r) \<le> 0x10000"
    by (simp_all add: data_record_ok_def)
qed

theorem intel_data_record_bounds_witness:
  "(0 :: nat) < 4 \<and>
   hex_records 4 [0x10, 0x11, 0x12, 0x13, 0x14, 0x15] 0xFFFC True =
     Some [\<lparr>ir_byte_count = 2, ir_address = 0, ir_type = 4, ir_data = [0, 0]\<rparr>,
           \<lparr>ir_byte_count = 4, ir_address = 0xFFFC, ir_type = 0, ir_data = [0x10, 0x11, 0x12, 0x13]\<rparr>,
           \<lparr>ir_byte_count = 2, ir_address = 0, ir_type = 4, ir_data = [0, 1]\<rparr>,
           \<lparr>ir_byte_count = 2, ir_address = 0, ir_type = 0, ir_data = [0x14, 0x15]\<rparr>,
           \<lparr>ir_byte_count = 0, ir_address = 0, ir_type = 1, ir_data = []\<rparr>] \<and>
   length (ir_data \<lparr>ir_byte_count = 4, ir_address = 0xFFFC, ir_type = 0,
                    ir_data = [0x10, 0x11, 0x12, 0x13 :: u8]\<rparr>) \<le> 4 \<and>
   unat (ir_address \<lparr>ir_byte_count = 4, ir_address = 0xFFFC, ir_type = 0,
                     ir_data = [0x10, 0x11, 0x12, 0x13 :: u8]\<rparr>)
     + length (ir_data \<lparr>ir_byte_count = 4, ir_address = 0xFFFC, ir_type = 0,
                        ir_data = [0x10, 0x11, 0x12, 0x13 :: u8]\<rparr>) \<le> 0x10000"
proof -
  let ?r = "\<lparr>ir_byte_count = 4, ir_address = 0xFFFC, ir_type = 0,
             ir_data = [0x10, 0x11, 0x12, 0x13 :: u8]\<rparr>"
  have run: "hex_records 4 [0x10, 0x11, 0x12, 0x13, 0x14, 0x15] 0xFFFC True =
     Some [\<lparr>ir_byte_count = 2, ir_address = 0, ir_type = 4, ir_data = [0, 0]\<rparr>,
           ?r,
           \<lparr>ir_byte_count = 2, ir_address = 0, ir_type = 4, ir_data = [0, 1]\<rparr>,
           \<lparr>ir_byte_count = 2, ir_address = 0, ir_type = 0, ir_data = [0x14, 0x15]\<rparr>,
           \<lparr>ir_byte_count = 0, ir_address = 0, ir_type = 1, ir_data = []\<rparr>]"
    by (simp add: intel_run_defs Let_def)
  have "length (ir_data ?r) \<le> 4 \<and> unat (ir_address ?r) + length (ir_data ?r) \<le> 0x10000"
    by (rule intel_data_record_bounds [THEN conjunct2, rule_format, OF run])
       (simp_all add: intel_type_defs)
  with run show ?thesis by simp
qed

text \<open>
  Claim C4. Every record written by \<^verbatim>\<open>convert_to_hex\<close> is a data, extended linear
  address or end-of-file record; its line is the colon, the byte count, the high and the
  low address byte, the record type, the payload and the checksum, each byte as two hex
  digits; and the checksum is \<open>(256 - S mod 256) mod 256\<close>, where \<open>S\<close> is the sum of the
  byte count, the two address bytes, the record type and every payload byte.
\<close>

theorem intel_record_checksum:
  assumes "hex_records bpl data start ext = Some recs" and "r \<in> set recs"
  shows "ir_type r \<in> {DATA_RECORD, EXTENDED_LINEAR_ADDRESS, EOF_RECORD} \<and>
    render_intel r =
      '':'' @ byte_to_hex (ir_byte_count r)
        @ byte_to_hex (ucast (drop_bit 8 (ir_address r)))
        @ byte_to_hex (ucast (ir_address r AND 0xFF))
        @ byte_to_hex (ir_type r)
        @ concat (map byte_to_hex (ir_data r))
        @ byte_to_hex (calculate_checksum (ir_byte_count r) (ir_address r) (ir_type r) (ir_data r)) \<and>
    unat (calculate_checksum (ir_byte_count r) (ir_address r) (ir_type r) (ir_data r)) =
      (256 - (unat (ir_byte_count r)
              + unat (ucast (drop_bit 8 (ir_address r)) :: u8)
              + unat (ucast (ir_address r AND 0xFF) :: u8)
              + unat (ir_type r)
              + sum_list (map unat (ir_data r))) mod 256) mod 256"
proof -
  let ?I = "\<lambda>s::hex_state. \<forall>r\<in>set (emitted s). ir_type r \<in> {DATA_RECORD, EXTENDED_LINEAR_ADDRESS}"
  have "\<exists>st. recs = emitted st @ [eof_record] \<and> ?I st \<and> \<not> data_offset st < length data"
    by (rule hex_records_invariant [OF assms(1)])
       (auto simp: hex_init_def hex_body_emitted hex_data_record_def extended_address_record_def
          Let_def)
  with assms(2) have "ir_type r \<in> {DATA_RECORD, EXTENDED_LINEAR_ADDRESS, EOF_RECORD}"
    by (auto simp: eof_record_def)
  then show ?thesis
    by (simp add: render_intel_def generate_record_layout calculate_checksum_unat)
qed

theorem intel_record_checksum_witness:
  "hex_records 4 [0x01, 0x02, 0x03, 0x04] 0 False =
     Some [\<lparr>ir_byte_count = 4, ir_address = 0, ir_type = 0, ir_data = [0x01, 0x02, 0x03, 0x04]\<rparr>,
           \<lparr>ir_byte_count = 0, ir_address = 0, ir_type = 1, ir_data = []\<rparr>] \<and>
   render_intel \<lparr>ir_byte_count = 4, ir_address = 0, ir_type = 0, ir_data = [0x01, 0x02, 0x03, 0x04]\<rparr>
     = '':0400000001020304F2'' \<and>
   unat (calculate_checksum 4 0 0 [0x01, 0x02, 0x03, 0x04]) = (256 - (4 + 0 + 0 + 0 + 10) mod 256) mod 256"
proof -
  let ?r = "\<lparr>ir_byte_count = 4, ir_address = 0, ir_type = 0, ir_data = [0x01, 0x02, 0x03, 0x04 :: u8]\<rparr>"
  have run: "hex_records 4 [0x01, 0x02, 0x03, 0x04] 0 False =
     Some [?r, \<lparr>ir_byte_count = 0, ir_address = 0, ir_type = 1, ir_data = []\<rparr>]"
    by (simp add: intel_run_defs Let_def)
  have mem: "?r \<in> set [?r, \<lparr>ir_byte_count = 0, ir_address = 0, ir_type = 1, ir_data = []\<rparr>]"
    by simp
  from intel_record_checksum [OF run mem]
  have "unat (calculate_checksum 4 0 0 [0x01, 0x02, 0x03, 0x04]) = (256 - (4 + 0 + 0 + 0 + 10) mod 256) mod 256"
    by simp
  moreover have "render_intel ?r = '':0400000001020304F2''"
    by (simp add: intel_render_defs hex_format_defs Let_def)
  ultimately show ?thesis using run by simp
qed

text \<open>
  Claim C2 as it is written gives the data line the checksum \<open>F6\<close>. That is the two's
  complement of the payload sum 10 alone; the code also adds the byte count 4, so the
  checksum is \<open>F2\<close>. The counterexample covers both settings of the extended-addressing
  flag.
\<close>

theorem intel_example_counterexample:
  "map_option hex_written
     (convert_to_hex (IntelHexConverter 4) [0x01, 0x02, 0x03, 0x04] 0 ''out.hex'' True False)
     \<noteq> Some ['':0400000001020304F6'', '':00000001FF''] \<and>
   map_option hex_written
     (convert_to_hex (IntelHexConverter 4) [0x01, 0x02, 0x03, 0x04] 0 ''out.hex'' True True)
     \<noteq> Some ['':0400000001020304F6'', '':00000001FF'']"
  by (simp add: intel_run_defs intel_render_defs hex_format_defs Let_def)

text \<open>
  Claim C2, amended. For the buffer \<open>[0x01, 0x02, 0x03, 0x04]\<close>, start address 0 and
  four bytes per line, \<^verbatim>\<open>convert_to_hex\<close> succeeds and writes the data line
  \<open>:0400000001020304F2\<close> followed by \<open>:00000001FF\<close>; with extended addressing enabled
  (the default) the extended linear address line \<open>:020000040000FA\<close> comes first.
\<close>

theorem intel_example:
  "convert_to_hex (IntelHexConverter 4) [0x01, 0x02, 0x03, 0x04] 0 output_file True False =
     Some \<lparr>hex_ok = True, hex_self = IntelHexConverter 4,
           hex_written = ['':0400000001020304F2'', '':00000001FF'']\<rparr> \<and>
   convert_to_hex (IntelHexConverter 4) [0x01, 0x02, 0x03, 0x04] 0 output_file True True =
     Some \<lparr>hex_ok = True, hex_self = IntelHexConverter 4,
           hex_written = ['':020000040000FA'', '':0400000001020304F2'', '':00000001FF'']\<rparr>"
  by (simp add: intel_run_defs intel_render_defs hex_format_defs Let_def)

text \<open>
  Claim C10. Without extended addressing, and with a positive line width,
  \<^verbatim>\<open>convert_to_hex\<close> returns success and leaves the object (and so its last error)
  unchanged; every record before the end-of-file record is a data record, the payloads
  concatenated are the buffer, and the address field of each data record is the start
  address plus the number of bytes written before it, modulo \<open>2^16\<close>: addresses at or
  above \<open>0x10000\<close> are truncated to their low 16 bits, and no extended linear address
  record is written.
\<close>

theorem intel_plain_addressing:
  assumes "0 < hex_bytes_per_line self"
  shows "\<exists>ds. hex_records (hex_bytes_per_line self) data start False = Some (ds @ [eof_record]) \<and>
     convert_to_hex self data start output_file True False =
       Some \<lparr>hex_ok = True, hex_self = self,
             hex_written = map render_intel (ds @ [eof_record])\<rparr> \<and>
     concat (map ir_data ds) = data \<and>
     (\<forall>i<length ds. ir_type (ds ! i) = DATA_RECORD \<and>
        unat (ir_address (ds ! i))
          = (unat start + length (concat (map ir_data (take i ds)))) mod 65536)"
proof -
  let ?bpl = "hex_bytes_per_line self"
  from hex_records_returns [OF assms] obtain recs
    where run: "hex_records ?bpl data start False = Some recs" by blast
  have "\<exists>st. recs = emitted st @ [eof_record] \<and> plain_inv start data st
          \<and> \<not> data_offset st < length data"
    by (rule hex_records_invariant [OF run]) (simp_all add: plain_inv_init plain_inv_step)
  then obtain st where recs: "recs = emitted st @ [eof_record]"
    and inv: "plain_inv start data st" and fin: "\<not> data_offset st < length data" by blast
  from inv fin have "concat (map ir_data (emitted st)) = data"
    by (simp add: plain_inv_def)
  moreover from inv have "\<forall>i<length (emitted st). ir_type (emitted st ! i) = DATA_RECORD \<and>
        unat (ir_address (emitted st ! i))
          = (unat start + length (concat (map ir_data (take i (emitted st))))) mod 65536"
    by (simp add: plain_inv_def)
  moreover have "convert_to_hex self data start output_file True False =
       Some \<lparr>hex_ok = True, hex_self = self,
             hex_written = map render_intel (emitted st @ [eof_record])\<rparr>"
    using run recs by (simp add: convert_to_hex_def)
  ultimately show ?thesis using run recs by blast
qed

theorem intel_plain_addressing_witness:
  "0 < hex_bytes_per_line (IntelHexConverter 16) \<and>
   convert_to_hex (IntelHexConverter 16) [0xDE, 0xAD, 0xBE, 0xEF] 0x1FFFE ''out.hex'' True False =
     Some \<lparr>hex_ok = True, hex_self = IntelHexConverter 16,
           hex_written = ['':02FFFE00DEAD76'', '':02000000BEEF51'', '':00000001FF'']\<rparr> \<and>
   hex_records 16 [0xDE, 0xAD, 0xBE, 0xEF] 0x1FFFE False =
     Some [\<lparr>ir_byte_count = 2, ir_address = 0xFFFE, ir_type = 0, ir_data = [0xDE, 0xAD]\<rparr>,
           \<lparr>ir_byte_count = 2, ir_address = 0, ir_type = 0, ir_data = [0xBE, 0xEF]\<rparr>,
           \<lparr>ir_byte_count = 0, ir_address = 0, ir_type = 1, ir_data = []\<rparr>] \<and>
   unat (ir_address \<lparr>ir_byte_count = 2, ir_address = 0, ir_type = 0, ir_data = [0xBE, 0xEF :: u8]\<rparr>)
     = (unat (0x1FFFE :: u32) + 2) mod 65536"
proof -
  let ?self = "IntelHexConverter 16"
  let ?d1 = "\<lparr>ir_byte_count = 2, ir_address = 0xFFFE, ir_type = 0, ir_data = [0xDE, 0xAD :: u8]\<rparr>"
  let ?d2 = "\<lparr>ir_byte_count = 2, ir_address = 0, ir_type = 0, ir_data = [0xBE, 0xEF :: u8]\<rparr>"
  have pos: "0 < hex_bytes_per_line ?self" by (simp add: IntelHexConverter_def)
  have bpl: "hex_bytes_per_line ?self = 16" by (simp add: IntelHexConverter_def)
  have run: "hex_records 16 [0xDE, 0xAD, 0xBE, 0xEF] 0x1FFFE False = Some ([?d1, ?d2] @ [eof_record])"
    by (simp add: intel_run_defs Let_def)
  from intel_plain_addressing [OF pos, of "[0xDE, 0xAD, 0xBE, 0xEF]" "0x1FFFE" "''out.hex''"]
  obtain ds where ds: "hex_records 16 [0xDE, 0xAD, 0xBE, 0xEF] 0x1FFFE False = Some (ds @ [eof_record])"
    and conv: "convert_to_hex ?self [0xDE, 0xAD, 0xBE, 0xEF] 0x1FFFE ''out.hex'' True False =
       Some \<lparr>hex_ok = True, hex_self = ?self, hex_written = map render_intel (ds @ [eof_record])\<rparr>"
    and addr: "\<forall>i<length ds. ir_type (ds ! i) = DATA_RECORD \<and>
        unat (ir_address (ds ! i))
          = (unat (0x1FFFE :: u32) + length (concat (map ir_data (take i ds)))) mod 65536"
    unfolding bpl by blast
  from ds run have eq: "ds = [?d1, ?d2]" by simp
  from addr [rule_format, of 1] eq
  have a: "unat (ir_address ?d2) = (unat (0x1FFFE :: u32) + 2) mod 65536" by simp
  have w: "map render_intel ([?d1, ?d2] @ [eof_record])
             = ['':02FFFE00DEAD76'', '':02000000BEEF51'', '':00000001FF'']"
    by (simp add: intel_render_defs hex_format_defs eof_record_def intel_type_defs Let_def)
  from conv eq w pos run a show ?thesis by (simp add: eof_record_def intel_type_defs)
qed

text \<open>
  Claim C3 as it is written counts one extended linear address record for a buffer that
  straddles a 64 KiB boundary. The tracked high half starts at the sentinel
  \<open>0xFFFFFFFF\<close>, so the first iteration always writes an extended linear address
  record for the starting page: at start address \<open>0xFFF0\<close> with 32 bytes the run
  writes two such records, for the pages 0 and 1.
\<close>

theorem intel_extended_address_counterexample:
  "map_option (filter is_extended_address)
     (hex_records 32
        [0x00, 0x01, 0x02, 0x03, 0x04, 0x05, 0x06, 0x07, 0x08, 0x09, 0x0A, 0x0B, 0x0C, 0x0D, 0x0E, 0x0F,
         0x10, 0x11, 0x12, 0x13, 0x14, 0x15, 0x16, 0x17, 0x18, 0x19, 0x1A, 0x1B, 0x1C, 0x1D, 0x1E, 0x1F]
        0x0000FFF0 True)
     = Some [\<lparr>ir_byte_count = 2, ir_address = 0, ir_type = 4, ir_data = [0x00, 0x00]\<rparr>,
             \<lparr>ir_byte_count = 2, ir_address = 0, ir_type = 4, ir_data = [0x00, 0x01]\<rparr>] \<and>
   map_option length (map_option (filter is_extended_address)
     (hex_records 32
        [0x00, 0x01, 0x02, 0x03, 0x04, 0x05, 0x06, 0x07, 0x08, 0x09, 0x0A, 0x0B, 0x0C, 0x0D, 0x0E, 0x0F,
         0x10, 0x11, 0x12, 0x13, 0x14, 0x15, 0x16, 0x17, 0x18, 0x19, 0x1A, 0x1B, 0x1C, 0x1D, 0x1E, 0x1F]
        0x0000FFF0 True))
     \<noteq> Some 1"
  by (simp add: intel_run_defs Let_def is_extended_address_def)

text \<open>
  Claim C3, amended. With extended addressing enabled and a positive line width, a buffer
  that reaches beyond the 64 KiB page of its start address and not beyond the next page
  is written as: the extended linear address record of the start address, one or more
  data records, the extended linear address record of the first address of the next
  page, one or more data records, the first of them at address 0, and the end-of-file
  record. So the run writes exactly two extended linear address records, and exactly one
  of them between the last data record of the first page and the first data record of
  the next. With extended addressing disabled no run writes an extended linear address
  record, whatever the buffer and the start address.
\<close>

theorem intel_extended_address_records:
  "(0 < bpl \<longrightarrow> 65536 - unat start mod 65536 < length data
      \<longrightarrow> length data \<le> 65536 - unat start mod 65536 + 65536
      \<longrightarrow> (\<exists>ds1 ds2.
             hex_records bpl data start True =
               Some (extended_address_record start # ds1
                     @ extended_address_record (start + of_nat (65536 - unat start mod 65536)) # ds2
                     @ [eof_record]) \<and>
             ds1 \<noteq> [] \<and> ds2 \<noteq> [] \<and>
             (\<forall>r\<in>set (ds1 @ ds2). ir_type r = DATA_RECORD) \<and>
             ir_address (hd ds2) = 0 \<and>
             length (filter is_extended_address
                       (extended_address_record start # ds1
                        @ extended_address_record (start + of_nat (65536 - unat start mod 65536)) # ds2
                        @ [eof_record])) = 2)) \<and>
   (\<forall>recs. hex_records bpl data start False = Some recs
      \<longrightarrow> (\<forall>r\<in>set recs. ir_type r \<noteq> EXTENDED_LINEAR_ADDRESS))"
proof (intro conjI impI allI)
  assume bpl: "0 < bpl"
    and b: "65536 - unat start mod 65536 < length data"
    and len: "length data \<le> 65536 - unat start mod 65536 + 65536"
  from hex_records_returns [OF bpl] obtain recs
    where run: "hex_records bpl data start True = Some recs" by blast
  have "\<exists>st. recs = emitted st @ [eof_record] \<and> ext_inv start data st
          \<and> \<not> data_offset st < length data"
    using bpl len
    by (intro hex_records_invariant [OF run] ext_inv_init ext_inv_step)
       (simp_all add: to_boundary_def)
  then obtain st where recs: "recs = emitted st @ [eof_record]"
    and inv: "ext_inv start data st" and fin: "\<not> data_offset st < length data" by blast
  from inv fin b have "to_boundary start < data_offset st"
    by (simp add: ext_inv_def to_boundary_def)
  with inv obtain ds1 ds2 where ds: "ds1 \<noteq> []" "ds2 \<noteq> []" "all_data ds1" "all_data ds2"
      "ir_address (hd ds2) = 0"
    and em: "emitted st = extended_address_record start # ds1
                           @ extended_address_record (next_page start) # ds2"
    unfolding ext_inv_def by (elim conjE disjE exE) simp_all
  have "length (filter is_extended_address
           (extended_address_record start # ds1
            @ extended_address_record (next_page start) # ds2 @ [eof_record])) = 2"
    using ds(3,4) by (simp add: filter_all_data)
  moreover have "\<forall>r\<in>set (ds1 @ ds2). ir_type r = DATA_RECORD"
    using ds(3,4) by (auto simp: all_data_def)
  ultimately show "\<exists>ds1 ds2.
             hex_records bpl data start True =
               Some (extended_address_record start # ds1
                     @ extended_address_record (start + of_nat (65536 - unat start mod 65536)) # ds2
                     @ [eof_record]) \<and>
             ds1 \<noteq> [] \<and> ds2 \<noteq> [] \<and>
             (\<forall>r\<in>set (ds1 @ ds2). ir_type r = DATA_RECORD) \<and>
             ir_address (hd ds2) = 0 \<and>
             length (filter is_extended_address
                       (extended_address_record start # ds1
                        @ extended_address_record (start + of_nat (65536 - unat start mod 65536)) # ds2
                        @ [eof_record])) = 2"
    using run recs em ds(1,2,5)
    unfolding next_page_def to_boundary_def
    by (intro exI [of _ ds1] exI [of _ ds2]) simp
next
  fix recs
  assume run: "hex_records bpl data start False = Some recs"
  let ?I = "\<lambda>s::hex_state. \<forall>r\<in>set (emitted s). ir_type r \<noteq> EXTENDED_LINEAR_ADDRESS"
  have "\<exists>st. recs = emitted st @ [eof_record] \<and> ?I st \<and> \<not> data_offset st < length data"
    by (rule hex_records_invariant [OF run]) (simp_all add: hex_init_def hex_body_plain_no_extended)
  then show "\<forall>r\<in>set recs. ir_type r \<noteq> EXTENDED_LINEAR_ADDRESS"
    by (auto simp: eof_record_def intel_type_defs)
qed

theorem intel_extended_address_records_witness:
  "(0 :: nat) < 32 \<and>
   65536 - unat (0x0000FFF0 :: u32) mod 65536
     < length [0x00, 0x01, 0x02, 0x03, 0x04, 0x05, 0x06, 0x07, 0x08, 0x09, 0x0A, 0x0B, 0x0C, 0x0D, 0x0E, 0x0F,
         0x10, 0x11, 0x12, 0x13, 0x14, 0x15, 0x16, 0x17, 0x18, 0x19, 0x1A, 0x1B, 0x1C, 0x1D, 0x1E, 0x1F :: u8] \<and>
   length [0x00, 0x01, 0x02, 0x03, 0x04, 0x05, 0x06, 0x07, 0x08, 0x09, 0x0A, 0x0B, 0x0C, 0x0D, 0x0E, 0x0F,
         0x10, 0x11, 0x12, 0x13, 0x14, 0x15, 0x16, 0x17, 0x18, 0x19, 0x1A, 0x1B, 0x1C, 0x1D, 0x1E, 0x1F :: u8]
     \<le> 65536 - unat (0x0000FFF0 :: u32) mod 65536 + 65536 \<and>
   map_option (map render_intel)
     (hex_records 32
        [0x00, 0x01, 0x02, 0x03, 0x04, 0x05, 0x06, 0x07, 0x08, 0x09, 0x0A, 0x0B, 0x0C, 0x0D, 0x0E, 0x0F,
         0x10, 0x11, 0x12, 0x13, 0x14, 0x15, 0x16, 0x17, 0x18, 0x19, 0x1A, 0x1B, 0x1C, 0x1D, 0x1E, 0x1F]
        0x0000FFF0 True)
     = Some ['':020000040000FA'',
             '':10FFF000000102030405060708090A0B0C0D0E0F89'',
             '':020000040001F9'',
             '':10000000101112131415161718191A1B1C1D1E1F78'',
             '':00000001FF''] \<and>
   map_option (length \<circ> filter is_extended_address)
     (hex_records 32
        [0x00, 0x01, 0x02, 0x03, 0x04, 0x05, 0x06, 0x07, 0x08, 0x09, 0x0A, 0x0B, 0x0C, 0x0D, 0x0E, 0x0F,
         0x10, 0x11, 0x12, 0x13, 0x14, 0x15, 0x16, 0x17, 0x18, 0x19, 0x1A, 0x1B, 0x1C, 0x1D, 0x1E, 0x1F]
        0x0000FFF0 True) = Some 2 \<and>
   map_option (length \<circ> filter is_extended_address)
     (hex_records 32
        [0x00, 0x01, 0x02, 0x03, 0x04, 0x05, 0x06, 0x07, 0x08, 0x09, 0x0A, 0x0B, 0x0C, 0x0D, 0x0E, 0x0F,
         0x10, 0x11, 0x12, 0x13, 0x14, 0x15, 0x16, 0x17, 0x18, 0x19, 0x1A, 0x1B, 0x1C, 0x1D, 0x1E, 0x1F]
        0x0000FFF0 False) = Some 0"
proof -
  let ?data = "[0x00, 0x01, 0x02, 0x03, 0x04, 0x05, 0x06, 0x07, 0x08, 0x09, 0x0A, 0x0B, 0x0C, 0x0D, 0x0E, 0x0F,
         0x10, 0x11, 0x12, 0x13, 0x14, 0x15, 0x16, 0x17, 0x18, 0x19, 0x1A, 0x1B, 0x1C, 0x1D, 0x1E, 0x1F :: u8]"
  have h1: "(0 :: nat) < 32" by simp
  have h2: "65536 - unat (0x0000FFF0 :: u32) mod 65536 < length ?data" by simp
  have h3: "length ?data \<le> 65536 - unat (0x0000FFF0 :: u32) mod 65536 + 65536" by simp
  note claim = intel_extended_address_records [of 32 "0x0000FFF0" ?data]
  from claim [THEN conjunct1, rule_format, OF h1 h2 h3]
  obtain ds1 ds2 where run: "hex_records 32 ?data 0x0000FFF0 True =
        Some (extended_address_record 0x0000FFF0 # ds1
              @ extended_address_record (0x0000FFF0 + of_nat (65536 - unat (0x0000FFF0 :: u32) mod 65536)) # ds2
              @ [eof_record])"
    and two: "length (filter is_extended_address
                (extended_address_record 0x0000FFF0 # ds1
                 @ extended_address_record (0x0000FFF0 + of_nat (65536 - unat (0x0000FFF0 :: u32) mod 65536)) # ds2
                 @ [eof_record])) = 2"
    by blast
  from run two have on: "map_option (length \<circ> filter is_extended_address)
      (hex_records 32 ?data 0x0000FFF0 True) = Some 2"
    by (simp only: option.map comp_apply)
  obtain recs where plain: "hex_records 32 ?data 0x0000FFF0 False = Some recs"
    using hex_records_returns [OF h1] by blast
  from claim [THEN conjunct2, rule_format, OF plain]
  have "filter is_extended_address recs = []"
    by (auto simp: filter_empty_conv is_extended_address_def)
  with plain have off: "map_option (length \<circ> filter is_extended_address)
      (hex_records 32 ?data 0x0000FFF0 False) = Some 0"
    by simp
  have lines: "map_option (map render_intel) (hex_records 32 ?data 0x0000FFF0 True)
     = Some ['':020000040000FA'',
             '':10FFF000000102030405060708090A0B0C0D0E0F89'',
             '':020000040001F9'',
             '':10000000101112131415161718191A1B1C1D1E1F78'',
             '':00000001FF'']"
    by (simp add: intel_run_defs intel_render_defs hex_format_defs Let_def)
  from h1 h2 h3 lines on off show ?thesis by (intro conjI)
qed

section \<open>Claims about the S-Record encoder\<close>

text \<open>
  Claim C1 says the address field is big-endian for every address width. The code appends
  address byte 1, then byte 0, then byte 2 (three or four address bytes), then byte 3
  (four address bytes), under the comment "Address bytes (big endian)". For 16-bit
  addresses that is big-endian (\<open>srec_address_field_16_big_endian\<close>); for 24-bit and
  32-bit addresses it is not. At start address \<open>0x123456\<close> with a 24-bit address the
  data record carries \<open>345612\<close> where big-endian order is \<open>123456\<close>, and a 32-bit
  address \<open>0x12345678\<close> is rendered \<open>56783412\<close>.
\<close>

theorem srec_address_not_big_endian:
  "map_option srec_written
     (convert_to_srec (SRecordConverter 32) [0xAA] 0x00123456 ''out.srec'' True 24 [])
     = Some [''S205345612AAB4'', ''S50500010001F8'', ''S8043456125F''] \<and>
   srec_address_field S2_DATA_24 0x00123456 = ''345612'' \<and>
   address_big_endian 3 0x00123456 = ''123456'' \<and>
   srec_address_field S3_DATA_32 0x12345678 = ''56783412'' \<and>
   address_big_endian 4 0x12345678 = ''12345678''"
  by (simp add: srec_run_defs srec_render_defs hex_format_defs Let_def address_big_endian_expand)

text \<open>
  Claim C5. Every record written by \<^verbatim>\<open>convert_to_srec\<close> is a header, data, count or
  end record; its line is \<open>S\<close>, the type digit, the byte count, the address bytes of
  its type (2, 3 or 4 of them), the payload and the checksum, each byte as two hex
  digits; and the checksum is \<open>~S & 0xFF\<close>, where \<open>S\<close> is the sum of the byte-count
  field, the address bytes present and every payload byte.
\<close>

theorem srec_record_checksum:
  assumes "srec_records bpl data start address_size header = Some recs" and "r \<in> set recs"
  shows "sr_type r \<in> {S0_HEADER, get_data_record_type address_size, S5_COUNT_16,
                       get_end_record_type address_size} \<and>
    render_srec r =
      ''S'' @ type_to_string (sr_type r)
        @ byte_to_hex (srec_byte_count (sr_type r) (sr_data r))
        @ concat (map byte_to_hex (srec_address_bytes (sr_type r) (sr_address r)))
        @ concat (map byte_to_hex (sr_data r))
        @ byte_to_hex (srec_calculate_checksum (srec_byte_count (sr_type r) (sr_data r))
             (sr_address r) (get_address_bytes (sr_type r)) (sr_data r)) \<and>
    length (srec_address_bytes (sr_type r) (sr_address r)) = get_address_bytes (sr_type r) \<and>
    get_address_bytes (sr_type r) \<in> {2, 3, 4} \<and>
    srec_calculate_checksum (srec_byte_count (sr_type r) (sr_data r))
        (sr_address r) (get_address_bytes (sr_type r)) (sr_data r) =
      ucast (NOT (of_nat (unat (srec_byte_count (sr_type r) (sr_data r))
                          + sum_list (map unat (srec_address_bytes (sr_type r) (sr_address r)))
                          + sum_list (map unat (sr_data r))) :: u32) AND 0xFF)"
proof -
  from srec_records_shape [OF assms(1)] assms(2)
  have ty: "sr_type r \<in> {S0_HEADER, get_data_record_type address_size, S5_COUNT_16,
                       get_end_record_type address_size}"
    by (auto simp: header_record_def count_record_def end_record_def split: if_splits)
  have ab: "get_address_bytes (sr_type r) \<in> {2, 3, 4}"
    by (cases "sr_type r") simp_all
  let ?S = "unat (srec_byte_count (sr_type r) (sr_data r))
              + sum_list (map unat (srec_address_bytes (sr_type r) (sr_address r)))
              + sum_list (map unat (sr_data r))"
  have "unat (ucast (NOT (of_nat ?S :: u32) AND 0xFF) :: u8) = 255 - ?S mod 256"
    by (simp only: unat_ones_complement_byte unat_of_nat_mod_256)
  then have ck: "srec_calculate_checksum (srec_byte_count (sr_type r) (sr_data r))
        (sr_address r) (get_address_bytes (sr_type r)) (sr_data r)
      = ucast (NOT (of_nat ?S :: u32) AND 0xFF)"
    by (simp only: word_unat_eq_iff srec_calculate_checksum_unat)
  from ty ab ck show ?thesis
    by (simp only: render_srec_def srec_generate_record_layout length_srec_address_bytes)
qed

theorem srec_record_checksum_witness:
  "srec_records 4 [0x01, 0x02, 0x03, 0x04] 0x12345678 24 [] =
     Some [\<lparr>sr_type = S2_DATA_24, sr_address = 0x12345678, sr_data = [0x01, 0x02, 0x03, 0x04]\<rparr>,
           \<lparr>sr_type = S5_COUNT_16, sr_address = 1, sr_data = [0, 1]\<rparr>,
           \<lparr>sr_type = S8_END_24, sr_address = 0x12345678, sr_data = []\<rparr>] \<and>
   render_srec \<lparr>sr_type = S2_DATA_24, sr_address = 0x12345678, sr_data = [0x01, 0x02, 0x03, 0x04]\<rparr>
     = ''S20856783401020304EB'' \<and>
   srec_address_bytes S2_DATA_24 0x12345678 = [0x56, 0x78, 0x34] \<and>
   srec_calculate_checksum 8 0x12345678 3 [0x01, 0x02, 0x03, 0x04]
     = ucast (NOT (of_nat (8 + (0x56 + 0x78 + 0x34) + (1 + 2 + 3 + 4)) :: u32) AND 0xFF)"
proof -
  let ?r = "\<lparr>sr_type = S2_DATA_24, sr_address = 0x12345678, sr_data = [0x01, 0x02, 0x03, 0x04 :: u8]\<rparr>"
  let ?recs = "[?r, \<lparr>sr_type = S5_COUNT_16, sr_address = 1, sr_data = [0, 1]\<rparr>,
           \<lparr>sr_type = S8_END_24, sr_address = 0x12345678, sr_data = []\<rparr>]"
  have run: "srec_records 4 [0x01, 0x02, 0x03, 0x04] 0x12345678 24 [] = Some ?recs"
    by (simp add: srec_run_defs Let_def)
  have mem: "?r \<in> set ?recs" by simp
  have bytes: "srec_address_bytes S2_DATA_24 0x12345678 = [0x56, 0x78, 0x34]"
    by (simp add: srec_address_bytes_def)
  have bc: "srec_byte_count S2_DATA_24 [0x01, 0x02, 0x03, 0x04] = 8"
    by (simp add: srec_byte_count_def)
  from srec_record_checksum [OF run mem]
  have "srec_calculate_checksum 8 0x12345678 3 [0x01, 0x02, 0x03, 0x04]
     = ucast (NOT (of_nat (8 + (0x56 + 0x78 + 0x34) + (1 + 2 + 3 + 4)) :: u32) AND 0xFF)"
    by (simp add: bytes bc)
  moreover have "render_srec ?r = ''S20856783401020304EB''"
    by (simp add: srec_render_defs hex_format_defs Let_def)
  ultimately show ?thesis using run bytes by simp
qed

text \<open>
  Claim C7 says the byte-count field is always the number of address bytes plus the
  payload length plus 1. The data loop clamps the payload to \<open>255 - addr_bytes - 1\<close>
  for that, and every record with a payload the field can count has the exact value
  (\<open>srec_byte_count_exact\<close>); but the header is passed to \<^verbatim>\<open>generate_record\<close>
  unclamped, where \<^verbatim>\<open>static_cast<uint8_t>\<close> wraps the count. With a header of 253
  characters the sum is 256 and the field written is \<open>00\<close>.
\<close>

theorem srec_header_byte_count_wraps:
  "srec_records 32 [] 0 16 (replicate 253 CHR ''A'')
     = Some [header_record (replicate 253 CHR ''A''), count_record 0, end_record S9_END_16 0] \<and>
   srec_byte_count S0_HEADER (sr_data (header_record (replicate 253 CHR ''A''))) = 0 \<and>
   get_address_bytes S0_HEADER + length (sr_data (header_record (replicate 253 CHR ''A''))) + 1 = 256 \<and>
   take 4 (render_srec (header_record (replicate 253 CHR ''A''))) = ''S000''"
proof (intro conjI)
  show "srec_records 32 [] 0 16 (replicate 253 CHR ''A'')
     = Some [header_record (replicate 253 CHR ''A''), count_record 0, end_record S9_END_16 0]"
    by (simp add: srec_records_def srec_loop.simps srec_init_def get_data_record_type_def
        get_end_record_type_def Let_def)
  show "srec_byte_count S0_HEADER (sr_data (header_record (replicate 253 CHR ''A''))) = 0"
    by (simp add: srec_byte_count_def header_record_def)
  show "get_address_bytes S0_HEADER + length (sr_data (header_record (replicate 253 CHR ''A''))) + 1 = 256"
    by (simp add: header_record_def)
  show "take 4 (render_srec (header_record (replicate 253 CHR ''A''))) = ''S000''"
    by (simp add: render_srec_def srec_generate_record_layout header_record_def
        srec_byte_count_def hex_format_defs)
qed

text \<open>
  Claim C8. For every buffer, start address and header, \<^verbatim>\<open>convert_to_srec\<close> with an
  address size other than 16, 24 or 32 returns, reports failure and writes no line;
  whenever the output file opened, the last error is the invalid-address-size message.
  (When the file does not open, the call fails before the check, with the message of
  that failure.)
\<close>

theorem srec_invalid_address_size:
  assumes "address_size \<noteq> 16" and "address_size \<noteq> 24" and "address_size \<noteq> 32"
  shows "\<exists>res. convert_to_srec self binary_data start_address output_file is_open address_size header
             = Some res \<and>
           srec_ok res = False \<and> srec_written res = [] \<and>
           (is_open \<longrightarrow> srec_last_error (srec_self res)
                            = ''Invalid address size. Must be 16, 24, or 32 bits.'')"
  using assms by (simp add: convert_to_srec_def)

theorem srec_invalid_address_size_witness:
  "(20 :: int) \<noteq> 16 \<and> (20 :: int) \<noteq> 24 \<and> (20 :: int) \<noteq> 32 \<and>
   convert_to_srec (SRecordConverter 32) [0x01, 0x02] 0 ''out.srec'' True 20 ''HDR''
     = Some \<lparr>srec_ok = False,
             srec_self = \<lparr>srec_bytes_per_line = 32,
                           srec_last_error = ''Invalid address size. Must be 16, 24, or 32 bits.''\<rparr>,
             srec_written = []\<rparr>"
proof -
  have h: "(20 :: int) \<noteq> 16" "(20 :: int) \<noteq> 24" "(20 :: int) \<noteq> 32" by simp_all
  from srec_invalid_address_size [OF h, of "SRecordConverter 32" "[0x01, 0x02]" 0 "''out.srec'' " True "''HDR''"]
  obtain res where "convert_to_srec (SRecordConverter 32) [0x01, 0x02] 0 ''out.srec'' True 20 ''HDR'' = Some res"
    and "srec_ok res = False" and "srec_written res = []"
    and "srec_last_error (srec_self res) = ''Invalid address size. Must be 16, 24, or 32 bits.''"
    by blast
  moreover have "srec_self res = \<lparr>srec_bytes_per_line = 32, srec_last_error = srec_last_error (srec_self res)\<rparr>"
    using calculation(1) by (auto simp: convert_to_srec_def SRecordConverter_def)
  ultimately show ?thesis using h
    by (cases res) simp
qed

section \<open>A claim about both encoders\<close>

text \<open>
  Claim C9. For an empty buffer and every start address, the Intel encoder makes one
  call of \<^verbatim>\<open>generate_record\<close>, for the end-of-file record, and writes the one line
  \<open>:00000001FF\<close>; the S-Record encoder, for a valid address size, writes the header
  record when the header is not empty, then the count record (the count is 0, so it is
  always written here), then the one end record.
\<close>

theorem empty_buffer_output:
  "hex_records bpl [] start ext = Some [eof_record] \<and>
   convert_to_hex self [] start output_file True ext =
     Some \<lparr>hex_ok = True, hex_self = self, hex_written = ['':00000001FF'']\<rparr> \<and>
   (address_size \<in> {16, 24, 32} \<longrightarrow>
      srec_records sbpl [] start address_size header =
        Some ((if header \<noteq> [] then [header_record header] else [])
              @ [count_record 0, end_record (get_end_record_type address_size) start]) \<and>
      convert_to_srec sself [] start output_file True address_size header =
        Some \<lparr>srec_ok = True, srec_self = sself,
              srec_written =
                (if header \<noteq> [] then [render_srec (header_record header)] else [])
                @ [''S50500000000FA'',
                   render_srec (end_record (get_end_record_type address_size) start)]\<rparr>)"
proof (intro conjI impI)
  show "hex_records bpl [] start ext = Some [eof_record]"
    by (rule hex_records_empty)
  have "render_intel eof_record = '':00000001FF''"
    by (simp add: eof_record_def intel_type_defs intel_render_defs hex_format_defs Let_def)
  then show "convert_to_hex self [] start output_file True ext =
     Some \<lparr>hex_ok = True, hex_self = self, hex_written = ['':00000001FF'']\<rparr>"
    by (simp add: convert_to_hex_def hex_records_empty)
next
  assume asz: "address_size \<in> {16, 24, 32}"
  show "srec_records sbpl [] start address_size header =
        Some ((if header \<noteq> [] then [header_record header] else [])
              @ [count_record 0, end_record (get_end_record_type address_size) start])"
    by (rule srec_records_empty)
  have c: "render_srec (count_record 0) = ''S50500000000FA''"
    by (simp add: count_record_def srec_render_defs hex_format_defs Let_def)
  from asz c show "convert_to_srec sself [] start output_file True address_size header =
        Some \<lparr>srec_ok = True, srec_self = sself,
              srec_written =
                (if header \<noteq> [] then [render_srec (header_record header)] else [])
                @ [''S50500000000FA'',
                   render_srec (end_record (get_end_record_type address_size) start)]\<rparr>"
    by (auto simp: convert_to_srec_def srec_records_empty)
qed

theorem empty_buffer_output_witness:
  "(16 :: int) \<in> {16, 24, 32} \<and>
   convert_to_hex (IntelHexConverter 16) [] 0x8000 ''out.hex'' True True =
     Some \<lparr>hex_ok = True, hex_self = IntelHexConverter 16, hex_written = ['':00000001FF'']\<rparr> \<and>
   convert_to_srec (SRecordConverter 16) [] 0x8000 ''out.srec'' True 16 ''HDR'' =
     Some \<lparr>srec_ok = True, srec_self = SRecordConverter 16,
           srec_written = [''S00600004844521B'', ''S50500000000FA'', ''S90380007C'']\<rparr> \<and>
   convert_to_srec (SRecordConverter 16) [] 0x8000 ''out.srec'' True 16 [] =
     Some \<lparr>srec_ok = True, srec_self = SRecordConverter 16,
           srec_written = [''S50500000000FA'', ''S90380007C'']\<rparr>"
proof -
  have a: "(16 :: int) \<in> {16, 24, 32}" by simp
  have hdr: "render_srec (header_record ''HDR'') = ''S00600004844521B''"
    by (simp add: header_record_def srec_render_defs hex_format_defs Let_def)
  have e: "render_srec (end_record (get_end_record_type 16) 0x8000) = ''S90380007C''"
    by (simp add: end_record_def get_end_record_type_def srec_render_defs hex_format_defs Let_def)
  from empty_buffer_output [of 16 "0x8000" True "IntelHexConverter 16" "''out.hex''" 16 16 "''HDR''" "SRecordConverter 16"]
  have 1: "convert_to_hex (IntelHexConverter 16) [] 0x8000 ''out.hex'' True True =
     Some \<lparr>hex_ok = True, hex_self = IntelHexConverter 16, hex_written = ['':00000001FF'']\<rparr>"
    by simp
  from empty_buffer_output [of 16 "0x8000" True "IntelHexConverter 16" "''out.srec''" 16 16 "''HDR''" "SRecordConverter 16"] a
  have 2: "convert_to_srec (SRecordConverter 16) [] 0x8000 ''out.srec'' True 16 ''HDR'' =
     Some \<lparr>srec_ok = True, srec_self = SRecordConverter 16,
           srec_written = [''S00600004844521B'', ''S50500000000FA'', ''S90380007C'']\<rparr>"
    by (simp add: hdr e)
  from empty_buffer_output [of 16 "0x8000" True "IntelHexConverter 16" "''out.srec''" 16 16 "[]" "SRecordConverter 16"] a
  have 3: "convert_to_srec (SRecordConverter 16) [] 0x8000 ''out.srec'' True 16 [] =
     Some \<lparr>srec_ok = True, srec_self = SRecordConverter 16,
           srec_written = [''S50500000000FA'', ''S90380007C'']\<rparr>"
    by (simp add: e)
  from a 1 2 3 show ?thesis by simp
qed

end
